theory Spec2Isabelle
  imports Main "HOL-Library.Word"
begin

section \<open>Cards\<close>

text \<open>
  Modelled from the spec: the declarations of package \<open>deck\<close> (the types \<open>Card\<close>,
  \<open>Rank\<close>, \<open>Suit\<close> and the rank constants) are not among the sources; only the
  \<open>String\<close> methods are. The spec gives a card a rank (Ace..King, 13 values) and a suit
  (4 values and the sentinel Joker). The name tables of the \<open>String\<close> methods give the
  order of the constants; \<open>Rank.String\<close> subtracts one before indexing, so Ace is 1 and
  King is 13, and it compares without a lower bound, so the rank type is unsigned.
  A rank is a \<open>nat\<close> here; \<open>int (Rank c)\<close> is the source's \<open>int(c.Rank)\<close>.

\<close>

datatype Suit = Spade | Diamond | Club | Heart | Joker

type_synonym Rank = nat

definition Ace :: Rank where "Ace = 1"
definition Two :: Rank where "Two = 2"
definition Three :: Rank where "Three = 3"
definition Four :: Rank where "Four = 4"
definition Five :: Rank where "Five = 5"
definition Six :: Rank where "Six = 6"
definition Seven :: Rank where "Seven = 7"
definition Eight :: Rank where "Eight = 8"
definition Nine :: Rank where "Nine = 9"
definition Ten :: Rank where "Ten = 10"
definition Jack :: Rank where "Jack = 11"
definition Queen :: Rank where "Queen = 12"
definition King :: Rank where "King = 13"

record Card =
  Suit :: Suit
  Rank :: Rank

section \<open>Integers\<close>

text \<open>
  Go's \<open>int\<close> is the 64-bit two's-complement integer of the 64-bit platforms:
  \<open>goint\<close>. Stakes, balances and the counters of the counting strategy are \<open>goint\<close>;
  \<open>+\<close>, \<open>-\<close> and \<open>*\<close> wrap around, \<open>sint\<close> gives the signed value, and the
  comparisons of the source compare signed values. A hand's total stays an \<open>int\<close>: it
  is at most ten per card plus ten, and a hand has far fewer than \<open>2^59\<close> cards.

  \<open>go_div\<close> is Go's \<open>/\<close> on \<open>int\<close>: it panics on a zero divisor and truncates
  toward zero otherwise (the quotient of the smallest integer by -1 wraps to the smallest
  integer).
\<close>

type_synonym goint = "64 word"

section \<open>float64\<close>

text \<open>
  A \<open>float64\<close> is not-a-number, an infinity (\<open>Infinity True\<close> is the negative one) or
  a finite number: \<open>Float m e\<close> is the number \<open>m * 2^e\<close>. The finite values of the
  machine type are the numbers that can be written with \<open>\<bar>m\<bar> < 2^53\<close> and
  \<open>-1074 \<le> e \<le> 971\<close>. The sign of a zero is not kept: the only use of a
  \<open>float64\<close> here is its conversion to \<open>int\<close>, which gives 0 for both zeros.

  Arithmetic is that of IEEE 754 binary64 in its default mode, round to nearest with
  ties to even. \<open>bitlen a\<close> is the number of binary digits of \<open>a\<close>;
  \<open>div_half_even a d\<close> is \<open>a / d\<close> rounded to the nearest integer, a tie going to the
  even one; \<open>round64 m e\<close> rounds the number \<open>m * 2^e\<close>: \<open>q\<close> is the exponent of the
  last of the 53 digits (that of the subnormal numbers, -1074, at least), \<open>r\<close> the
  rounded multiple of \<open>2^q\<close>, and a result of \<open>2^1024\<close> or more is an infinity.
\<close>

datatype float64 = Float int int | Infinity bool | NaN

function bitlen :: "int \<Rightarrow> nat" where
  "bitlen a = (if a \<le> 0 then 0 else Suc (bitlen (a div 2)))"
  by pat_completeness auto
termination
  by (relation "measure nat") auto

declare bitlen.simps [simp del]

definition div_half_even :: "int \<Rightarrow> int \<Rightarrow> int" where
  "div_half_even a d =
     (let q = a div d; r = a mod d
      in if 2 * r < d then q
         else if d < 2 * r then q + 1
         else if even q then q
         else q + 1)"

definition round64 :: "int \<Rightarrow> int \<Rightarrow> float64" where
  "round64 m e =
     (let a = \<bar>m\<bar>;
          q = max (int (bitlen a) - 53 + e) (- 1074);
          r = (if q \<le> e then a * 2 ^ nat (e - q) else div_half_even a (2 ^ nat (q - e)))
      in if 971 \<le> q \<and> 2 ^ 53 \<le> r * 2 ^ nat (q - 971) then Infinity (m < 0)
         else Float (sgn m * r) q)"

text \<open>The conversion \<open>float64(w)\<close> of an \<open>int\<close>.\<close>

definition float64_of_int :: "goint \<Rightarrow> float64" where
  "float64_of_int w = round64 (sint w) 0"

text \<open>The product \<open>x * y\<close> of two \<open>float64\<close>.\<close>

fun float64_mul :: "float64 \<Rightarrow> float64 \<Rightarrow> float64" where
  "float64_mul (Float m1 e1) (Float m2 e2) = round64 (m1 * m2) (e1 + e2)"
| "float64_mul (Float m e) (Infinity s) = (if m = 0 then NaN else Infinity (s \<noteq> (m < 0)))"
| "float64_mul (Infinity s) (Float m e) = (if m = 0 then NaN else Infinity (s \<noteq> (m < 0)))"
| "float64_mul (Infinity s) (Infinity t) = Infinity (s \<noteq> t)"
| "float64_mul NaN y = NaN"
| "float64_mul x NaN = NaN"

text \<open>
  \<open>trunc_scaled m e\<close> is the number \<open>m * 2^e\<close> with its fraction dropped (truncated
  toward zero).

  The conversion \<open>int(x)\<close> of a \<open>float64\<close> drops the fraction. Where the value is
  not-a-number, infinite or outside the range of \<open>int\<close>, the language leaves the result to
  the implementation; the value here is that of amd64, the smallest integer.
\<close>

definition trunc_scaled :: "int \<Rightarrow> int \<Rightarrow> int" where
  "trunc_scaled m e =
     (if 0 \<le> e then m * 2 ^ nat e else sgn m * (\<bar>m\<bar> div 2 ^ nat (- e)))"

definition int_of_float64 :: "float64 \<Rightarrow> goint" where
  "int_of_float64 x =
     (case x of
        Float m e \<Rightarrow>
          (let t = trunc_scaled m e
           in if - (2 ^ 63) \<le> t \<and> t < 2 ^ 63 then word_of_int t else - (2 ^ 63))
      | Infinity s \<Rightarrow> - (2 ^ 63)
      | NaN \<Rightarrow> - (2 ^ 63))"

section \<open>Scoring\<close>

text \<open>\<open>minScore\<close>: the loop adds \<open>min(int(c.Rank), 10)\<close> to an accumulator that starts at 0.\<close>

fun minScore_loop :: "Card list \<Rightarrow> int \<Rightarrow> int" where
  "minScore_loop [] score = score"
| "minScore_loop (c # hand) score = minScore_loop hand (score + min (int (Rank c)) 10)"

definition minScore :: "Card list \<Rightarrow> int" where
  "minScore hand = minScore_loop hand 0"

text \<open>
  \<open>Score\<close>: returns \<open>minScore\<close> when it exceeds 11; otherwise the loop returns
  \<open>minScore + 10\<close> at the first Ace, and \<open>minScore\<close> when the loop ends.
\<close>

fun Score_loop :: "Card list \<Rightarrow> int \<Rightarrow> int" where
  "Score_loop [] m = m"
| "Score_loop (c # hand) m = (if Rank c = Ace then m + 10 else Score_loop hand m)"

definition Score :: "Card list \<Rightarrow> int" where
  "Score hand = (let m = minScore hand in if m > 11 then m else Score_loop hand m)"

definition Soft :: "Card list \<Rightarrow> bool" where
  "Soft hand = (let m = minScore hand; score = Score hand in m \<noteq> score)"

definition Blackjack :: "Card list \<Rightarrow> bool" where
  "Blackjack hand = (length hand = 2 \<and> Score hand = 21)"

section \<open>The game\<close>

text \<open>
  \<open>state\<close> is the source's \<open>int8\<close> enumeration; \<open>state_rank\<close> gives the \<open>iota\<close>
  values, the order in which \<open>g.state++\<close> walks through them.
\<close>

datatype state = statePlayerTurn | stateDealerTurn | stateHandOver

fun state_rank :: "state \<Rightarrow> nat" where
  "state_rank statePlayerTurn = 0"
| "state_rank stateDealerTurn = 1"
| "state_rank stateHandOver = 2"

record hand =
  cards :: "Card list"
  bet :: goint

text \<open>
  The fields of \<open>Game\<close>. The field \<open>dealerAI\<close> always holds \<open>dealerAI{}\<close> and is
  the constant \<open>dealerAI_Play\<close> below. \<open>handIdx\<close> starts at 0 and is only ever
  incremented, once for a hand that is left, so it is a \<open>nat\<close>.
\<close>

record Game =
  nDecks :: goint
  nHands :: goint
  blackjackPayout :: float64
  deck :: "Card list"
  state :: state
  player :: "hand list"
  handIdx :: nat
  playerBet :: goint
  balance :: goint
  dealer :: "Card list"

text \<open>
  Panics are values: \<open>PanicNoTurn\<close> is \<open>currentHand\<close>'s panic, \<open>PanicIndex\<close> an index
  out of range, \<open>PanicBet\<close> the panic of \<open>bet\<close>, \<open>PanicError e\<close> the \<open>panic(err)\<close> of
  the player loop, \<open>PanicDivide\<close> an integer division by zero. The errors are the
  \<open>error\<close> values the moves return.
\<close>

datatype error = errBust | errSplitCount | errSplitRank | errDoubleCount | errInvalidState

datatype panic = PanicNoTurn | PanicIndex | PanicBet | PanicError error | PanicDivide

text \<open>
  A \<open>Move\<close> is a \<open>func(*Game) error\<close>: it either panics or returns an error (or nil)
  together with the game as it has left it.
\<close>

type_synonym Move = "Game \<Rightarrow> panic + (error option \<times> Game)"

text \<open>
  \<open>currentHand\<close> returns a pointer to the active cards: \<open>currentHand\<close> reads through
  it, \<open>set_currentHand\<close> writes through it.
\<close>

definition currentHand :: "Game \<Rightarrow> panic + Card list" where
  "currentHand g =
     (case state g of
        statePlayerTurn \<Rightarrow>
          if handIdx g < length (player g) then Inr (cards (player g ! handIdx g))
          else Inl PanicIndex
      | stateDealerTurn \<Rightarrow> Inr (dealer g)
      | stateHandOver \<Rightarrow> Inl PanicNoTurn)"

definition set_currentHand :: "Game \<Rightarrow> Card list \<Rightarrow> Game" where
  "set_currentHand g cs =
     (case state g of
        statePlayerTurn \<Rightarrow>
          g\<lparr>player := (player g)[handIdx g := (player g ! handIdx g)\<lparr>cards := cs\<rparr>]\<rparr>
      | stateDealerTurn \<Rightarrow> g\<lparr>dealer := cs\<rparr>
      | stateHandOver \<Rightarrow> g)"

definition draw :: "Card list \<Rightarrow> panic + (Card \<times> Card list)" where
  "draw cs = (case cs of [] \<Rightarrow> Inl PanicIndex | c # rest \<Rightarrow> Inr (c, rest))"

definition MoveHit :: Move where
  "MoveHit g =
     (case currentHand g of
        Inl p \<Rightarrow> Inl p
      | Inr h \<Rightarrow>
          (case draw (deck g) of
             Inl p \<Rightarrow> Inl p
           | Inr (c, rest) \<Rightarrow>
               let g' = set_currentHand (g\<lparr>deck := rest\<rparr>) (h @ [c])
               in if Score (h @ [c]) > 21 then Inr (Some errBust, g')
                  else Inr (None, g')))"

text \<open>
  \<open>MoveStand\<close>: \<open>g.state++\<close> is taken from \<open>stateDealerTurn\<close> and from
  \<open>statePlayerTurn\<close> only.
\<close>

definition MoveStand :: Move where
  "MoveStand g =
     (if state g = stateDealerTurn then Inr (None, g\<lparr>state := stateHandOver\<rparr>)
      else if state g = statePlayerTurn then
        (let g1 = g\<lparr>handIdx := handIdx g + 1\<rparr>
         in if handIdx g1 \<ge> length (player g1)
            then Inr (None, g1\<lparr>state := stateDealerTurn\<rparr>)
            else Inr (None, g1))
      else Inr (Some errInvalidState, g))"

text \<open>
  \<open>MoveSplit\<close>: the new hand is built from \<open>(*cards)[1]\<close> and
  \<open>g.player[g.handIdx].bet\<close> (which panics when the index is out of range), appended to
  \<open>g.player\<close>, and then \<open>g.player[g.handIdx].cards\<close> is set to \<open>(*cards)[:1]\<close>.
\<close>

definition MoveSplit :: Move where
  "MoveSplit g =
     (case currentHand g of
        Inl p \<Rightarrow> Inl p
      | Inr cs \<Rightarrow>
          if length cs \<noteq> 2 then Inr (Some errSplitCount, g)
          else if Rank (cs ! 0) \<noteq> Rank (cs ! 1) then Inr (Some errSplitRank, g)
          else if handIdx g < length (player g) then
            (let new = \<lparr>cards = [cs ! 1], bet = bet (player g ! handIdx g)\<rparr>;
                 hands = player g @ [new]
             in Inr (None, g\<lparr>player := hands[handIdx g := (hands ! handIdx g)\<lparr>cards := take 1 cs\<rparr>]\<rparr>))
          else Inl PanicIndex)"

text \<open>
  \<open>MoveDouble\<close>: doubles \<open>g.playerBet\<close>, calls \<open>MoveHit\<close> and drops its error, and
  returns what \<open>MoveStand\<close> returns.
\<close>

definition MoveDouble :: Move where
  "MoveDouble g =
     (case currentHand g of
        Inl p \<Rightarrow> Inl p
      | Inr h \<Rightarrow>
          if length h \<noteq> 2 then Inr (Some errDoubleCount, g)
          else (case MoveHit (g\<lparr>playerBet := playerBet g * 2\<rparr>) of
                  Inl p \<Rightarrow> Inl p
                | Inr (_, g2) \<Rightarrow> MoveStand g2))"

section \<open>The dealer's policy\<close>

definition dealerAI_Play :: "Card list \<Rightarrow> Card \<Rightarrow> Move" where
  "dealerAI_Play hand upcard =
     (let dScore = Score hand
      in if dScore \<le> 16 \<or> (dScore = 17 \<and> Soft hand) then MoveHit else MoveStand)"

section \<open>Strategies\<close>

text \<open>
  The interface \<open>AI\<close>: a strategy has a state of its own (type \<open>'s\<close>), which its three
  methods may change. \<open>Bet\<close> may panic.
\<close>

record 's AI =
  Bet :: "bool \<Rightarrow> 's \<Rightarrow> panic + (goint \<times> 's)"
  Play :: "Card list \<Rightarrow> Card \<Rightarrow> 's \<Rightarrow> Move \<times> 's"
  Results :: "Card list list \<Rightarrow> Card list \<Rightarrow> 's \<Rightarrow> 's"

section \<open>A round\<close>

text \<open>The function \<open>bet\<close> of the source (the name \<open>bet\<close> is the field of \<open>hand\<close> here).\<close>

definition game_bet :: "'s AI \<Rightarrow> bool \<Rightarrow> 's \<Rightarrow> Game \<Rightarrow> panic + ('s \<times> Game)" where
  "game_bet ai shuffled a g =
     (case Bet ai shuffled a of
        Inl p \<Rightarrow> Inl p
      | Inr (b, a') \<Rightarrow> if sint b < 100 then Inl PanicBet else Inr (a', g\<lparr>playerBet := b\<rparr>))"

text \<open>\<open>deal\<close>: the loop runs twice; each pass draws a card for the player, then one for the dealer.\<close>

fun deal_loop :: "nat \<Rightarrow> Card list \<Rightarrow> Game \<Rightarrow> panic + (Card list \<times> Game)" where
  "deal_loop 0 playerHand g = Inr (playerHand, g)"
| "deal_loop (Suc n) playerHand g =
     (case draw (deck g) of
        Inl p \<Rightarrow> Inl p
      | Inr (c, rest) \<Rightarrow>
          (case draw rest of
             Inl p \<Rightarrow> Inl p
           | Inr (c', rest') \<Rightarrow>
               deal_loop n (playerHand @ [c]) (g\<lparr>deck := rest', dealer := dealer g @ [c']\<rparr>)))"

definition deal :: "Game \<Rightarrow> panic + Game" where
  "deal g =
     (case deal_loop 2 [] (g\<lparr>handIdx := 0, dealer := []\<rparr>) of
        Inl p \<Rightarrow> Inl p
      | Inr (playerHand, g') \<Rightarrow>
          Inr (g'\<lparr>player := [\<lparr>cards = playerHand, bet = playerBet g'\<rparr>],
                  state := statePlayerTurn\<rparr>))"

text \<open>
  \<open>endRound\<close>: the loop over \<open>g.player\<close> adds each hand's winnings to the balance;
  the cases of the \<open>switch\<close> are tried in the order of the source. The winnings of a
  player's blackjack are \<open>int(float64(winnings) * g.blackjackPayout)\<close>.
\<close>

fun endRound_loop :: "float64 \<Rightarrow> int \<Rightarrow> bool \<Rightarrow> hand list \<Rightarrow> goint \<Rightarrow> goint" where
  "endRound_loop payout dScore dBlackjack [] bal = bal"
| "endRound_loop payout dScore dBlackjack (h # hs) bal =
     (let pScore = Score (cards h); pBlackjack = Blackjack (cards h);
          winnings = bet h;
          winnings' =
            (if pBlackjack \<and> dBlackjack then 0
             else if dBlackjack \<or> pScore > 21 then - winnings
             else if pBlackjack then int_of_float64 (float64_mul (float64_of_int winnings) payout)
             else if dScore > 21 \<or> pScore > dScore then winnings
             else if dScore = pScore then 0
             else - winnings)
      in endRound_loop payout dScore dBlackjack hs (bal + winnings'))"

definition endRound :: "'s AI \<Rightarrow> 's \<Rightarrow> Game \<Rightarrow> 's \<times> Game" where
  "endRound ai a g =
     (let dScore = Score (dealer g); dBlackjack = Blackjack (dealer g);
          bal = endRound_loop (blackjackPayout g) dScore dBlackjack (player g) (balance g);
          allHands = map cards (player g);
          a' = Results ai allHands (dealer g) a
      in (a', g\<lparr>balance := bal, player := [], dealer := []\<rparr>))"

text \<open>
  One pass of the player loop of \<open>Play\<close>: the strategy sees a copy of the active hand
  and the dealer's first card; \<open>errBust\<close> is answered by \<open>MoveStand\<close> (whose result is
  dropped), any other error by a panic.
\<close>

definition playerStep :: "'s AI \<Rightarrow> 's \<Rightarrow> Game \<Rightarrow> panic + ('s \<times> Game)" where
  "playerStep ai a g =
     (case currentHand g of
        Inl p \<Rightarrow> Inl p
      | Inr h \<Rightarrow>
          (case dealer g of
             [] \<Rightarrow> Inl PanicIndex
           | up # _ \<Rightarrow>
               (case Play ai h up a of
                  (move, a') \<Rightarrow>
                    (case move g of
                       Inl p \<Rightarrow> Inl p
                     | Inr (err, g') \<Rightarrow>
                         (case err of
                            None \<Rightarrow> Inr (a', g')
                          | Some e \<Rightarrow>
                              if e = errBust then
                                (case MoveStand g' of
                                   Inl p \<Rightarrow> Inl p
                                 | Inr (_, g'') \<Rightarrow> Inr (a', g''))
                              else Inl (PanicError e))))))"

text \<open>
  The player loop, \<open>for g.state == statePlayerTurn\<close>. A strategy may keep it running
  for ever, so it takes fuel: \<open>None\<close> is the loop that has not ended after that many
  passes.
\<close>

fun playerTurn :: "nat \<Rightarrow> 's AI \<Rightarrow> 's \<Rightarrow> Game \<Rightarrow> (panic + ('s \<times> Game)) option" where
  "playerTurn 0 ai a g =
     (if state g \<noteq> statePlayerTurn then Some (Inr (a, g)) else None)"
| "playerTurn (Suc n) ai a g =
     (if state g \<noteq> statePlayerTurn then Some (Inr (a, g))
      else (case playerStep ai a g of
              Inl p \<Rightarrow> Some (Inl p)
            | Inr (a', g') \<Rightarrow> playerTurn n ai a' g'))"

text \<open>
  The dealer loop, \<open>for g.state == stateDealerTurn\<close>; the result of the move is
  dropped. It ends: a hit takes a card from the shoe and a stand leaves the state.
\<close>

function dealerTurn :: "Game \<Rightarrow> panic + Game" where
  "dealerTurn g =
     (if state g \<noteq> stateDealerTurn then Inr g
      else (case dealer g of
              [] \<Rightarrow> Inl PanicIndex
            | up # _ \<Rightarrow>
                (case dealerAI_Play (dealer g) up g of
                   Inl p \<Rightarrow> Inl p
                 | Inr (_, g') \<Rightarrow> dealerTurn g')))"
  by pat_completeness auto
termination
proof (relation "measure (\<lambda>g. length (deck g) + (if state g = stateDealerTurn then 1 else 0))")
  show "wf (measure (\<lambda>g. length (deck g) + (if state g = stateDealerTurn then 1 else 0)))"
    by simp
next
  fix g :: Game and up ds x e g'
  assume st: "\<not> state g \<noteq> stateDealerTurn" and "dealer g = up # ds"
    and mv: "dealerAI_Play (dealer g) up g = Inr x" and x: "(e, g') = x"
  from mv x have "MoveHit g = Inr (e, g') \<or> MoveStand g = Inr (e, g')"
    by (auto simp: dealerAI_Play_def Let_def split: if_splits)
  then show "(g', g) \<in> measure (\<lambda>g. length (deck g) + (if state g = stateDealerTurn then 1 else 0))"
  proof
    assume "MoveHit g = Inr (e, g')"
    with st show ?thesis
      by (auto simp: MoveHit_def currentHand_def set_currentHand_def draw_def Let_def
          split: list.splits if_splits)
  next
    assume "MoveStand g = Inr (e, g')"
    with st show ?thesis by (auto simp: MoveStand_def)
  qed
qed

text \<open>
  One pass of the loop of \<open>Play\<close>, from the call of \<open>bet\<close> on; \<open>shuffled\<close> tells
  whether the pass has just put a new shoe into \<open>g.deck\<close>.
\<close>

definition playRound ::
  "nat \<Rightarrow> 's AI \<Rightarrow> bool \<Rightarrow> 's \<Rightarrow> Game \<Rightarrow> (panic + ('s \<times> Game)) option" where
  "playRound fuel ai shuffled a g =
     (case game_bet ai shuffled a g of
        Inl p \<Rightarrow> Some (Inl p)
      | Inr (a1, g1) \<Rightarrow>
          (case deal g1 of
             Inl p \<Rightarrow> Some (Inl p)
           | Inr g2 \<Rightarrow>
               if Blackjack (dealer g2) then Some (Inr (endRound ai a1 g2))
               else (case playerTurn fuel ai a1 g2 of
                       None \<Rightarrow> None
                     | Some (Inl p) \<Rightarrow> Some (Inl p)
                     | Some (Inr (a2, g3)) \<Rightarrow>
                         (case dealerTurn g3 of
                            Inl p \<Rightarrow> Some (Inl p)
                          | Inr g4 \<Rightarrow> Some (Inr (endRound ai a2 g4))))))"

text \<open>
  The states of a round: \<open>round_reach g0 g\<close> holds when \<open>g\<close> comes from \<open>g0\<close> by
  moves of the package that return (the moves of a strategy, the stand after a bust,
  the moves of the dealer).
\<close>

inductive round_reach :: "Game \<Rightarrow> Game \<Rightarrow> bool" for g0 :: Game where
  reach_start: "round_reach g0 g0"
| reach_hit: "round_reach g0 g \<Longrightarrow> MoveHit g = Inr (e, g') \<Longrightarrow> round_reach g0 g'"
| reach_stand: "round_reach g0 g \<Longrightarrow> MoveStand g = Inr (e, g') \<Longrightarrow> round_reach g0 g'"
| reach_double: "round_reach g0 g \<Longrightarrow> MoveDouble g = Inr (e, g') \<Longrightarrow> round_reach g0 g'"
| reach_split: "round_reach g0 g \<Longrightarrow> MoveSplit g = Inr (e, g') \<Longrightarrow> round_reach g0 g'"

code_pred (modes: i \<Rightarrow> o \<Rightarrow> bool) round_reach .

section \<open>The counting strategy\<close>

definition go_div :: "goint \<Rightarrow> goint \<Rightarrow> panic + goint" where
  "go_div x y =
     (if y = 0 then Inl PanicDivide
      else Inr (word_of_int (sgn (sint x) * sgn (sint y) * (\<bar>sint x\<bar> div \<bar>sint y\<bar>))))"

record basicAI =
  score :: goint
  seen :: goint
  decks :: goint

text \<open>
  \<open>Bet\<close>: the inner quotient, by 52, cannot panic; the outer one panics when the inner
  quotient is zero.
\<close>

definition basicAI_Bet :: "bool \<Rightarrow> basicAI \<Rightarrow> panic + (goint \<times> basicAI)" where
  "basicAI_Bet shuffled bi =
     (let bi1 = (if shuffled then bi\<lparr>score := 0, seen := 0\<rparr> else bi)
      in case go_div (decks bi1 * 52 - seen bi1) 52 of
           Inl p \<Rightarrow> Inl p
         | Inr d \<Rightarrow>
             (case go_div (score bi1) d of
                Inl p \<Rightarrow> Inl p
              | Inr trueScore \<Rightarrow>
                  Inr (if sint trueScore \<ge> 14 then 100000
                       else if sint trueScore \<ge> 8 then 5000
                       else 100, bi1)))"

definition basicAI_Play :: "Card list \<Rightarrow> Card \<Rightarrow> basicAI \<Rightarrow> Move \<times> basicAI" where
  "basicAI_Play hand upcard bi =
     (let sc = Score hand
      in if length hand = 2 \<and> hand ! 0 = hand ! 1
            \<and> Score [hand ! 0] \<ge> 8 \<and> Score [hand ! 0] \<noteq> 10 then (MoveSplit, bi)
         else if length hand = 2 \<and> (sc = 10 \<or> (sc = 11 \<and> \<not> Soft hand)) then (MoveDouble, bi)
         else if Score [upcard] \<ge> 5 \<and> Score [upcard] \<le> 6 then (MoveStand, bi)
         else if sc < 13 then (MoveHit, bi)
         else (MoveStand, bi))"

definition basicAI_count :: "Card \<Rightarrow> basicAI \<Rightarrow> basicAI" where
  "basicAI_count c bi =
     (let sc = Score [c];
          bi1 = (if sc \<ge> 10 then bi\<lparr>score := score bi - 1\<rparr>
                 else if sc \<le> 6 then bi\<lparr>score := score bi + 1\<rparr>
                 else bi)
      in bi1\<lparr>seen := seen bi1 + 1\<rparr>)"

definition basicAI_Results :: "Card list list \<Rightarrow> Card list \<Rightarrow> basicAI \<Rightarrow> basicAI" where
  "basicAI_Results hands dealerHand bi =
     fold (\<lambda>h b. fold basicAI_count h b) hands (fold basicAI_count dealerHand bi)"

definition basicAI_AI :: "basicAI AI" where
  "basicAI_AI = \<lparr>Bet = basicAI_Bet, Play = basicAI_Play, Results = basicAI_Results\<rparr>"

section \<open>Settlement in words\<close>

text \<open>
  The outcome of one hand as computed: a function of the two scores, the two blackjack
  flags, the bet and the multiplier, by the rules in their order; a player's blackjack
  pays the \<open>float64\<close> product of the converted bet and the multiplier, converted to
  \<open>int\<close>.
\<close>

definition outcome :: "int \<Rightarrow> bool \<Rightarrow> int \<Rightarrow> bool \<Rightarrow> goint \<Rightarrow> float64 \<Rightarrow> goint" where
  "outcome pScore pBlackjack dScore dBlackjack b mult =
     (if pBlackjack \<and> dBlackjack then 0
      else if dBlackjack \<or> pScore > 21 then - b
      else if pBlackjack then int_of_float64 (float64_mul (float64_of_int b) mult)
      else if dScore > 21 \<or> pScore > dScore then b
      else if pScore = dScore then 0
      else - b)"

text \<open>
  The outcome of one hand as the specification words it, for a multiplier that is the
  number \<open>k * 2^e\<close>: a player's blackjack pays the bet times the multiplier, truncated
  toward zero.
\<close>

definition outcome_spec :: "int \<Rightarrow> bool \<Rightarrow> int \<Rightarrow> bool \<Rightarrow> goint \<Rightarrow> int \<Rightarrow> int \<Rightarrow> goint" where
  "outcome_spec pScore pBlackjack dScore dBlackjack b k e =
     (if pBlackjack \<and> dBlackjack then 0
      else if dBlackjack \<or> pScore > 21 then - b
      else if pBlackjack then word_of_int (trunc_scaled (sint b * k) e)
      else if dScore > 21 \<or> pScore > dScore then b
      else if pScore = dScore then 0
      else - b)"

section \<open>Sample tables\<close>

definition mk :: "Rank \<Rightarrow> Suit \<Rightarrow> Card" where
  "mk r s = \<lparr>Suit = s, Rank = r\<rparr>"

text \<open>The multipliers 1.5 and 1.2 (the \<open>float64\<close> nearest to 1.2).\<close>

definition one_and_half :: float64 where
  "one_and_half = Float 3 (- 1)"

definition one_point_two :: float64 where
  "one_point_two = Float 5404319552844595 (- 52)"

text \<open>A game of four decks before a round, with the given cards on top of the shoe.\<close>

definition table :: "Card list \<Rightarrow> Game" where
  "table shoe = \<lparr>nDecks = 4, nHands = 1, blackjackPayout = one_and_half, deck = shoe,
     state = statePlayerTurn, player = [], handIdx = 0, playerBet = 0, balance = 0,
     dealer = []\<rparr>"

text \<open>A game in the player's turn with the given hands, active hand and shoe.\<close>

definition seated :: "hand list \<Rightarrow> nat \<Rightarrow> Card list \<Rightarrow> Game" where
  "seated hs i shoe = \<lparr>nDecks = 4, nHands = 1, blackjackPayout = one_and_half, deck = shoe,
     state = statePlayerTurn, player = hs, handIdx = i, playerBet = 100, balance = 0,
     dealer = [mk Ten Club, mk Seven Club]\<rparr>"

definition counting :: "goint \<Rightarrow> basicAI" where
  "counting n = \<lparr>score = 0, seen = 0, decks = n\<rparr>"

section \<open>Scoring: properties\<close>

lemmas card_defs = mk_def Ace_def Two_def Three_def Four_def Five_def Six_def Seven_def
  Eight_def Nine_def Ten_def Jack_def Queen_def King_def

lemmas score_defs = Score_def minScore_def Soft_def Blackjack_def Let_def

lemma minScore_loop_sum:
  "minScore_loop hand s = s + (\<Sum>c\<leftarrow>hand. min (int (Rank c)) 10)"
  by (induction hand arbitrary: s) auto

lemma minScore_sum: "minScore hand = (\<Sum>c\<leftarrow>hand. min (int (Rank c)) 10)"
  by (simp add: minScore_def minScore_loop_sum)

lemma Score_loop_Ace:
  "Score_loop hand m = (if \<exists>c \<in> set hand. Rank c = Ace then m + 10 else m)"
  by (induction hand) auto

lemma Score_cases:
  "Score hand =
     (if minScore hand > 11 \<or> (\<forall>c \<in> set hand. Rank c \<noteq> Ace) then minScore hand
      else minScore hand + 10)"
  by (simp add: Score_def Let_def Score_loop_Ace)

lemma Soft_iff: "Soft hand \<longleftrightarrow> (\<exists>c \<in> set hand. Rank c = Ace) \<and> minScore hand \<le> 11"
  unfolding Soft_def Let_def Score_cases by auto

text \<open>
  C6. For every hand, \<open>Score\<close> returns \<open>minScore\<close> when \<open>minScore\<close> exceeds 11 or the
  hand holds no Ace, and \<open>minScore + 10\<close> otherwise; \<open>minScore\<close> is the sum over the
  cards of the rank capped at 10, in which an Ace counts 1; the empty hand scores 0 and
  is not a blackjack.
\<close>

theorem Score_spec:
  "Score hand =
     (if minScore hand > 11 \<or> (\<forall>c \<in> set hand. Rank c \<noteq> Ace) then minScore hand
      else minScore hand + 10)
   \<and> minScore hand = (\<Sum>c\<leftarrow>hand. min (int (Rank c)) 10)
   \<and> min (int Ace) 10 = 1
   \<and> Score [] = 0 \<and> \<not> Blackjack []"
proof -
  have "Score [] = 0" by (simp add: Score_def minScore_def)
  moreover have "\<not> Blackjack []" by (simp add: Blackjack_def)
  moreover have "min (int Ace) 10 = 1" by (simp add: Ace_def)
  ultimately show ?thesis using Score_cases [of hand] minScore_sum [of hand] by blast
qed

theorem Score_spec_witness:
  "Score [\<lparr>Suit = Spade, Rank = Ace\<rparr>, \<lparr>Suit = Heart, Rank = King\<rparr>] = 21
   \<and> minScore [\<lparr>Suit = Spade, Rank = Ace\<rparr>, \<lparr>Suit = Heart, Rank = King\<rparr>] = 11
   \<and> Score [\<lparr>Suit = Spade, Rank = Ace\<rparr>, \<lparr>Suit = Heart, Rank = King\<rparr>,
        \<lparr>Suit = Club, Rank = Five\<rparr>] = 16"
  using Score_spec [of "[\<lparr>Suit = Spade, Rank = Ace\<rparr>, \<lparr>Suit = Heart, Rank = King\<rparr>]"]
    Score_spec [of "[\<lparr>Suit = Spade, Rank = Ace\<rparr>, \<lparr>Suit = Heart, Rank = King\<rparr>,
      \<lparr>Suit = Club, Rank = Five\<rparr>]"]
  by (simp add: Ace_def King_def Five_def)

section \<open>The dealer's policy: properties\<close>

lemma MoveHit_neq_MoveStand: "MoveHit \<noteq> MoveStand"
proof
  assume eq: "MoveHit = MoveStand"
  define g where "g = \<lparr>nDecks = 0, nHands = 0, blackjackPayout = NaN, deck = [],
     state = stateHandOver, player = [], handIdx = 0, playerBet = 0, balance = 0, dealer = []\<rparr>"
  have "MoveHit g = Inl PanicNoTurn" by (simp add: MoveHit_def currentHand_def g_def)
  moreover have "MoveStand g = Inr (Some errInvalidState, g)" by (simp add: MoveStand_def g_def)
  ultimately show False using eq by simp
qed

text \<open>
  C7. The dealer's policy returns \<open>MoveHit\<close> exactly when the score is at most 16, or is
  17 and the hand is soft; in every other case it returns \<open>MoveStand\<close>. A hand is soft
  exactly when it holds an Ace and its score counts that Ace as 11.
\<close>

theorem dealerAI_Play_spec:
  "(dealerAI_Play hand up = MoveHit \<longleftrightarrow> Score hand \<le> 16 \<or> (Score hand = 17 \<and> Soft hand))
   \<and> (\<not> (Score hand \<le> 16 \<or> (Score hand = 17 \<and> Soft hand)) \<longrightarrow> dealerAI_Play hand up = MoveStand)
   \<and> (Soft hand \<longleftrightarrow> (\<exists>c \<in> set hand. Rank c = Ace) \<and> Score hand = minScore hand + 10)"
proof -
  have a: "dealerAI_Play hand up =
      (if Score hand \<le> 16 \<or> (Score hand = 17 \<and> Soft hand) then MoveHit else MoveStand)"
    by (simp add: dealerAI_Play_def Let_def)
  have b: "Soft hand \<longleftrightarrow> (\<exists>c \<in> set hand. Rank c = Ace) \<and> Score hand = minScore hand + 10"
    unfolding Soft_iff Score_cases by auto
  from a b MoveHit_neq_MoveStand show ?thesis
    by (cases "Score hand \<le> 16 \<or> (Score hand = 17 \<and> Soft hand)") simp_all
qed

theorem dealerAI_Play_spec_witness:
  "dealerAI_Play [mk Ace Spade, mk Six Heart] (mk Ace Spade) = MoveHit
   \<and> dealerAI_Play [mk Ten Spade, mk Seven Heart] (mk Ten Spade) = MoveStand"
  using dealerAI_Play_spec [of "[mk Ace Spade, mk Six Heart]" "mk Ace Spade"]
    dealerAI_Play_spec [of "[mk Ten Spade, mk Seven Heart]" "mk Ten Spade"]
  by (simp add: score_defs card_defs)

section \<open>Moves when the round is over\<close>

text \<open>
  C10. When the state is \<open>stateHandOver\<close>, \<open>MoveHit\<close>, \<open>MoveDouble\<close> and \<open>MoveSplit\<close>
  panic in \<open>currentHand\<close>, and \<open>MoveStand\<close> returns the invalid-state error and leaves
  the game as it was.
\<close>

theorem Moves_HandOver:
  "state g = stateHandOver \<Longrightarrow>
     MoveHit g = Inl PanicNoTurn \<and> MoveDouble g = Inl PanicNoTurn
     \<and> MoveSplit g = Inl PanicNoTurn \<and> MoveStand g = Inr (Some errInvalidState, g)"
  by (simp add: MoveHit_def MoveDouble_def MoveSplit_def MoveStand_def currentHand_def)

theorem Moves_HandOver_witness:
  "MoveHit ((table [])\<lparr>state := stateHandOver\<rparr>) = Inl PanicNoTurn
   \<and> MoveDouble ((table [])\<lparr>state := stateHandOver\<rparr>) = Inl PanicNoTurn
   \<and> MoveSplit ((table [])\<lparr>state := stateHandOver\<rparr>) = Inl PanicNoTurn
   \<and> MoveStand ((table [])\<lparr>state := stateHandOver\<rparr>)
       = Inr (Some errInvalidState, (table [])\<lparr>state := stateHandOver\<rparr>)"
  using Moves_HandOver [of "(table [])\<lparr>state := stateHandOver\<rparr>"]
  by simp

section \<open>Settlement\<close>

lemma bitlen_le: "a < 2 ^ n \<Longrightarrow> bitlen a \<le> n"
proof (induction n arbitrary: a)
  case 0
  then show ?case by (simp add: bitlen.simps [of a])
next
  case (Suc n)
  from Suc.prems have "a div 2 < 2 ^ n" by simp
  from Suc.IH [OF this] show ?case by (simp add: bitlen.simps [of a])
qed

lemma trunc_scaled_shift: "trunc_scaled (m * 2 ^ j) (e - int j) = trunc_scaled m e"
proof (cases "0 \<le> e - int j")
  case True
  then have "nat e = nat (e - int j) + j" by simp
  with True show ?thesis by (simp add: trunc_scaled_def power_add mult.assoc mult.commute)
next
  case False
  show ?thesis
  proof (cases "0 \<le> e")
    case True
    with False have j: "j = nat (int j - e) + nat e" by simp
    have "(2 :: int) ^ j = 2 ^ nat e * 2 ^ nat (int j - e)"
      by (subst j) (simp add: power_add)
    then have "\<bar>m\<bar> * 2 ^ j = (\<bar>m\<bar> * 2 ^ nat e) * 2 ^ nat (int j - e)"
      by (simp only: mult.assoc)
    then have "(\<bar>m\<bar> * 2 ^ j) div 2 ^ nat (int j - e)
        = ((\<bar>m\<bar> * 2 ^ nat e) * 2 ^ nat (int j - e)) div 2 ^ nat (int j - e)"
      by (simp only:)
    also have "\<dots> = \<bar>m\<bar> * 2 ^ nat e"
      by (rule nonzero_mult_div_cancel_right) simp
    finally have "(\<bar>m\<bar> * 2 ^ j) div 2 ^ nat (int j - e) = \<bar>m\<bar> * 2 ^ nat e" .
    with True False show ?thesis
      by (simp add: trunc_scaled_def abs_mult sgn_mult mult.assoc [symmetric] mult_sgn_abs)
  next
    case e: False
    then have "nat (int j - e) = nat (- e) + j" by simp
    then have "(\<bar>m\<bar> * 2 ^ j) div 2 ^ nat (int j - e) = \<bar>m\<bar> div 2 ^ nat (- e)"
      by (simp add: power_add)
    with e False show ?thesis
      by (simp add: trunc_scaled_def abs_mult sgn_mult)
  qed
qed

lemma div_half_even_exact: "0 < d \<Longrightarrow> d dvd a \<Longrightarrow> div_half_even a d = a div d"
  by (auto simp: div_half_even_def Let_def)

lemma round64_exact:
  assumes small: "int (bitlen \<bar>m\<bar>) - 53 + e < 971"
    and dv: "e < max (int (bitlen \<bar>m\<bar>) - 53 + e) (- 1074) \<Longrightarrow>
            2 ^ nat (max (int (bitlen \<bar>m\<bar>) - 53 + e) (- 1074) - e) dvd m"
  shows "round64 m e =
      Float (if max (int (bitlen \<bar>m\<bar>) - 53 + e) (- 1074) \<le> e
             then m * 2 ^ nat (e - max (int (bitlen \<bar>m\<bar>) - 53 + e) (- 1074))
             else m div 2 ^ nat (max (int (bitlen \<bar>m\<bar>) - 53 + e) (- 1074) - e))
        (max (int (bitlen \<bar>m\<bar>) - 53 + e) (- 1074))"
proof -
  define q where "q = max (int (bitlen \<bar>m\<bar>) - 53 + e) (- 1074)"
  from small have q: "\<not> 971 \<le> q" by (simp add: q_def)
  show ?thesis
  proof (cases "q \<le> e")
    case True
    have "sgn m * (\<bar>m\<bar> * 2 ^ nat (e - q)) = m * 2 ^ nat (e - q)"
      by (simp add: mult.assoc [symmetric] mult_sgn_abs)
    with True q show ?thesis
      unfolding round64_def Let_def q_def [symmetric] by simp
  next
    case False
    then have "e < q" by simp
    then have "e < max (int (bitlen \<bar>m\<bar>) - 53 + e) (- 1074)"
      unfolding q_def .
    from dv [OF this] have d: "2 ^ nat (q - e) dvd m" unfolding q_def .
    then have "(2 :: int) ^ nat (q - e) dvd \<bar>m\<bar>" by simp
    then have r: "div_half_even \<bar>m\<bar> (2 ^ nat (q - e)) = \<bar>m\<bar> div 2 ^ nat (q - e)"
      by (intro div_half_even_exact) simp_all
    from d obtain c where c: "m = 2 ^ nat (q - e) * c" ..
    then have "sgn m * (\<bar>m\<bar> div 2 ^ nat (q - e)) = m div 2 ^ nat (q - e)"
      by (simp add: abs_mult sgn_mult mult_sgn_abs)
    with False q r show ?thesis
      unfolding round64_def Let_def q_def [symmetric] by simp
  qed
qed

lemma round64_exact_trunc:
  assumes small: "int (bitlen \<bar>m\<bar>) - 53 + e < 971"
    and dv: "e < max (int (bitlen \<bar>m\<bar>) - 53 + e) (- 1074) \<Longrightarrow>
            2 ^ nat (max (int (bitlen \<bar>m\<bar>) - 53 + e) (- 1074) - e) dvd m"
  shows "\<exists>m' q. round64 m e = Float m' q \<and> trunc_scaled m' q = trunc_scaled m e"
proof -
  define q where "q = max (int (bitlen \<bar>m\<bar>) - 53 + e) (- 1074)"
  note r = round64_exact [OF small dv, folded q_def]
  show ?thesis
  proof (cases "q \<le> e")
    case True
    then have "e - int (nat (e - q)) = q" by simp
    with trunc_scaled_shift [of m "nat (e - q)" e]
    have "trunc_scaled (m * 2 ^ nat (e - q)) q = trunc_scaled m e" by simp
    with r True show ?thesis by simp
  next
    case False
    then have "e < q" by simp
    then have "e < max (int (bitlen \<bar>m\<bar>) - 53 + e) (- 1074)" unfolding q_def .
    from dv [OF this] have "2 ^ nat (q - e) dvd m" unfolding q_def .
    then have m: "m = (m div 2 ^ nat (q - e)) * 2 ^ nat (q - e)" by simp
    from False have "q - int (nat (q - e)) = e" by simp
    with trunc_scaled_shift [of "m div 2 ^ nat (q - e)" "nat (q - e)" q] m
    have "trunc_scaled (m div 2 ^ nat (q - e)) q = trunc_scaled m e" by simp
    with r False show ?thesis by simp
  qed
qed

lemma trunc_scaled_abs_le: "e \<le> 0 \<Longrightarrow> \<bar>trunc_scaled m e\<bar> \<le> \<bar>m\<bar>"
proof -
  assume e: "e \<le> 0"
  have d: "0 \<le> \<bar>m\<bar> div 2 ^ nat (- e)" "\<bar>m\<bar> div 2 ^ nat (- e) \<le> \<bar>m\<bar>"
    by (simp_all add: pos_imp_zdiv_nonneg_iff zdiv_mono2 [of "\<bar>m\<bar>" 1 "2 ^ nat (- e)", simplified])
  show ?thesis
  proof (cases "e = 0")
    case True
    then show ?thesis by (simp add: trunc_scaled_def)
  next
    case False
    with e have "trunc_scaled m e = sgn m * (\<bar>m\<bar> div 2 ^ nat (- e))"
      by (simp add: trunc_scaled_def)
    then have "\<bar>trunc_scaled m e\<bar> = \<bar>sgn m\<bar> * (\<bar>m\<bar> div 2 ^ nat (- e))"
      using d(1) by (simp only: abs_mult abs_of_nonneg)
    also have "\<dots> \<le> 1 * (\<bar>m\<bar> div 2 ^ nat (- e))"
      using d(1) by (intro mult_right_mono) (simp_all add: abs_sgn_eq)
    finally show ?thesis using d(2) by simp
  qed
qed

lemma payout_exact:
  assumes b: "\<bar>sint b\<bar> < 2 ^ 53" and bk: "\<bar>sint b * k\<bar> < 2 ^ 53"
    and e: "- 1074 \<le> e" "e \<le> 0"
  shows "int_of_float64 (float64_mul (float64_of_int b) (Float k e))
      = word_of_int (trunc_scaled (sint b * k) e)"
proof -
  define q1 where "q1 = max (int (bitlen \<bar>sint b\<bar>) - 53 + 0) (- 1074)"
  define j where "j = nat (0 - q1)"
  from bitlen_le [OF b] have q1: "q1 \<le> 0" by (simp add: q1_def)
  then have jq: "q1 = - int j" by (simp add: j_def)
  have "round64 (sint b) 0 = Float (if q1 \<le> 0 then sint b * 2 ^ nat (0 - q1)
      else sint b div 2 ^ nat (q1 - 0)) q1"
    unfolding q1_def using q1 by (intro round64_exact) (simp_all add: q1_def)
  with q1 have conv: "float64_of_int b = Float (sint b * 2 ^ j) q1"
    by (simp add: float64_of_int_def j_def)
  define M where "M = sint b * 2 ^ j * k"
  define E where "E = q1 + e"
  have M: "M = (sint b * k) * 2 ^ j" by (simp add: M_def mult.assoc mult.commute)
  have E: "E = e - int j" by (simp add: E_def jq)
  have "\<bar>M\<bar> = \<bar>sint b * k\<bar> * 2 ^ j" by (simp add: M abs_mult)
  also have "\<dots> < 2 ^ 53 * 2 ^ j" using bk by (intro mult_strict_right_mono) simp_all
  finally have "\<bar>M\<bar> < 2 ^ (53 + j)" by (simp add: power_add)
  from bitlen_le [OF this] have bl: "int (bitlen \<bar>M\<bar>) \<le> 53 + int j" by simp
  have small: "int (bitlen \<bar>M\<bar>) - 53 + E < 971" using bl e E by simp
  have dv: "2 ^ nat (max (int (bitlen \<bar>M\<bar>) - 53 + E) (- 1074) - E) dvd M"
  proof -
    have "nat (max (int (bitlen \<bar>M\<bar>) - 53 + E) (- 1074) - E) \<le> j"
      using bl e E by simp
    then have "(2 :: int) ^ nat (max (int (bitlen \<bar>M\<bar>) - 53 + E) (- 1074) - E) dvd 2 ^ j"
      by (rule le_imp_power_dvd)
    then show ?thesis unfolding M by (rule dvd_mult)
  qed
  from round64_exact_trunc [OF small dv] obtain m' q where
    r: "round64 M E = Float m' q" and t: "trunc_scaled m' q = trunc_scaled M E" by blast
  from trunc_scaled_shift [of "sint b * k" j e] have t2: "trunc_scaled M E = trunc_scaled (sint b * k) e"
    by (simp add: M E)
  from trunc_scaled_abs_le [OF e(2), of "sint b * k"] bk
  have "\<bar>trunc_scaled (sint b * k) e\<bar> < 2 ^ 53" by simp
  then have rng: "- (2 ^ 63) \<le> trunc_scaled (sint b * k) e" "trunc_scaled (sint b * k) e < 2 ^ 63"
    by simp_all
  have "float64_mul (float64_of_int b) (Float k e) = Float m' q"
    using conv r by (simp add: M_def E_def)
  with t t2 rng show ?thesis by (simp add: int_of_float64_def Let_def)
qed

text \<open>
  Payouts computed: 1.5 times 100 and times 101 (truncated), 1.5 times \<open>2^53 + 1\<close>
  (the conversion is rounded), and the \<open>float64\<close> nearest 1.2 times 100 (the product
  is rounded up to 120, where the product of the two numbers, truncated, is 119). Two
  products of the machine for comparison: 100 times the \<open>float64\<close> nearest 1.1 is
  110.00000000000001, and 3 times the one nearest 0.1 is 0.30000000000000004.
\<close>

lemma payout_100: "int_of_float64 (float64_mul (float64_of_int 100) one_and_half) = 150"
  by code_simp

lemma payout_101: "int_of_float64 (float64_mul (float64_of_int 101) one_and_half) = 151"
  by code_simp

lemma payout_large:
  "int_of_float64 (float64_mul (float64_of_int 9007199254740993) one_and_half)
     = 13510798882111488"
  by code_simp

lemma payout_1_2: "int_of_float64 (float64_mul (float64_of_int 100) one_point_two) = 120"
  by code_simp

lemma product_1_1:
  "float64_mul (float64_of_int 100) (Float 4953959590107546 (- 52))
     = Float 7740561859543041 (- 46)"
  by code_simp

lemma product_0_1:
  "float64_mul (float64_of_int 3) (Float 7205759403792794 (- 56))
     = Float 5404319552844596 (- 54)"
  by code_simp

lemma trunc_large: "trunc_scaled (9007199254740993 * 3) (- 1) = 13510798882111489"
  by code_simp

lemma trunc_1_2: "trunc_scaled (100 * 5404319552844595) (- 52) = 119"
  by code_simp

lemma endRound_loop_sum:
  "endRound_loop mult dS dB hs bal =
     bal + (\<Sum>h\<leftarrow>hs. outcome (Score (cards h)) (Blackjack (cards h)) dS dB (bet h) mult)"
  by (induction hs arbitrary: bal) (auto simp: outcome_def Let_def)

text \<open>
  C2 (as amended). \<open>endRound\<close> adds to the balance, in the wrap-around arithmetic of
  \<open>int\<close>, the sum over the player's hands of the outcome that \<open>outcome\<close> computes from
  the hand's score and blackjack flag, the dealer's score and blackjack flag, the
  hand's bet and the multiplier, by the rules in their order; a player's blackjack pays
  \<open>int(float64(bet) * multiplier)\<close>, the product formed in \<open>float64\<close> and then
  truncated. This is the bet times the multiplier, truncated toward zero
  (\<open>outcome_spec\<close>), whenever the bet is below \<open>2^53\<close> in size and the multiplier is
  \<open>k * 2^e\<close> with \<open>\<bar>bet * k\<bar> < 2^53\<close> and \<open>-1074 \<le> e \<le> 0\<close>, where neither the conversion
  nor the product is rounded. \<open>endRound\<close> hands the final cards to \<open>Results\<close> and clears
  the hands.
\<close>

theorem endRound_settles:
  "endRound ai a g =
     (Results ai (map cards (player g)) (dealer g) a,
      g\<lparr>balance := balance g +
           (\<Sum>h\<leftarrow>player g. outcome (Score (cards h)) (Blackjack (cards h))
              (Score (dealer g)) (Blackjack (dealer g)) (bet h) (blackjackPayout g)),
        player := [], dealer := []\<rparr>)
   \<and> (\<bar>sint b\<bar> < 2 ^ 53 \<and> \<bar>sint b * k\<bar> < 2 ^ 53 \<and> - 1074 \<le> e \<and> e \<le> 0 \<longrightarrow>
        outcome pScore pBlackjack dScore dBlackjack b (Float k e)
          = outcome_spec pScore pBlackjack dScore dBlackjack b k e)"
proof -
  have 1: "endRound ai a g =
     (Results ai (map cards (player g)) (dealer g) a,
      g\<lparr>balance := balance g +
           (\<Sum>h\<leftarrow>player g. outcome (Score (cards h)) (Blackjack (cards h))
              (Score (dealer g)) (Blackjack (dealer g)) (bet h) (blackjackPayout g)),
        player := [], dealer := []\<rparr>)"
    by (simp add: endRound_def Let_def endRound_loop_sum)
  have 2: "outcome pScore pBlackjack dScore dBlackjack b (Float k e)
          = outcome_spec pScore pBlackjack dScore dBlackjack b k e"
    if "\<bar>sint b\<bar> < 2 ^ 53" "\<bar>sint b * k\<bar> < 2 ^ 53" "- 1074 \<le> e" "e \<le> 0"
    using payout_exact [OF that] by (simp add: outcome_def outcome_spec_def)
  from 1 2 show ?thesis by blast
qed

theorem endRound_settles_witness:
  "balance (snd (endRound basicAI_AI (counting 4)
     (seated [\<lparr>cards = [mk Ace Spade, mk King Heart], bet = 100\<rparr>,
              \<lparr>cards = [mk Ten Spade, mk Nine Heart], bet = 100\<rparr>,
              \<lparr>cards = [mk Ten Heart, mk Six Heart], bet = 100\<rparr>] 0 []))) = 150
   \<and> outcome 21 True 17 False 101 (Float 3 (- 1)) = 151
   \<and> outcome_spec 21 True 17 False 101 3 (- 1) = 151"
proof -
  have a: "balance (snd (endRound basicAI_AI (counting 4)
     (seated [\<lparr>cards = [mk Ace Spade, mk King Heart], bet = 100\<rparr>,
              \<lparr>cards = [mk Ten Spade, mk Nine Heart], bet = 100\<rparr>,
              \<lparr>cards = [mk Ten Heart, mk Six Heart], bet = 100\<rparr>] 0 []))) = 150"
    using endRound_settles [of basicAI_AI "counting 4"
     "seated [\<lparr>cards = [mk Ace Spade, mk King Heart], bet = 100\<rparr>,
              \<lparr>cards = [mk Ten Spade, mk Nine Heart], bet = 100\<rparr>,
              \<lparr>cards = [mk Ten Heart, mk Six Heart], bet = 100\<rparr>] 0 []"]
    by (simp add: seated_def outcome_def payout_100 score_defs card_defs)
  have b: "outcome 21 True 17 False 101 (Float 3 (- 1)) = 151"
    using payout_101 by (simp add: outcome_def one_and_half_def)
  have "\<bar>sint (101 :: goint)\<bar> < 2 ^ 53 \<and> \<bar>sint (101 :: goint) * 3\<bar> < 2 ^ 53
      \<and> (- 1074 :: int) \<le> - 1 \<and> (- 1 :: int) \<le> 0" by simp
  with endRound_settles [of basicAI_AI "counting 4" "seated [] 0 []" 101 3 "- 1" 21 True 17 False]
  have "outcome 21 True 17 False 101 (Float 3 (- 1)) = outcome_spec 21 True 17 False 101 3 (- 1)"
    by blast
  with a b show ?thesis by simp
qed

text \<open>
  The claim as first stated pays a player's blackjack the bet times the multiplier,
  truncated toward zero. With the multiplier 1.5 and the bet \<open>2^53 + 1\<close> that is
  13510798882111489; the conversion to \<open>float64\<close> rounds the bet to \<open>2^53\<close>, and
  \<open>endRound\<close> pays 13510798882111488.
\<close>

theorem endRound_settles_counterexample:
  "blackjackPayout (seated [\<lparr>cards = [mk Ace Spade, mk King Heart], bet = 9007199254740993\<rparr>] 0 [])
     = Float 3 (- 1)
   \<and> balance (snd (endRound basicAI_AI (counting 4)
       (seated [\<lparr>cards = [mk Ace Spade, mk King Heart], bet = 9007199254740993\<rparr>] 0 [])))
     = 13510798882111488
   \<and> outcome_spec (Score [mk Ace Spade, mk King Heart]) (Blackjack [mk Ace Spade, mk King Heart])
       (Score [mk Ten Club, mk Seven Club]) (Blackjack [mk Ten Club, mk Seven Club])
       9007199254740993 3 (- 1)
     = 13510798882111489
   \<and> balance (snd (endRound basicAI_AI (counting 4)
       (seated [\<lparr>cards = [mk Ace Spade, mk King Heart], bet = 9007199254740993\<rparr>] 0 [])))
     \<noteq> balance (seated [\<lparr>cards = [mk Ace Spade, mk King Heart], bet = 9007199254740993\<rparr>]
         0 [])
       + outcome_spec (Score [mk Ace Spade, mk King Heart])
           (Blackjack [mk Ace Spade, mk King Heart])
           (Score [mk Ten Club, mk Seven Club]) (Blackjack [mk Ten Club, mk Seven Club])
           9007199254740993 3 (- 1)"
proof -
  have "balance (snd (endRound basicAI_AI (counting 4)
       (seated [\<lparr>cards = [mk Ace Spade, mk King Heart], bet = 9007199254740993\<rparr>] 0 [])))
     = 13510798882111488"
    by (simp add: endRound_def seated_def payout_large score_defs card_defs)
  moreover have "outcome_spec (Score [mk Ace Spade, mk King Heart])
       (Blackjack [mk Ace Spade, mk King Heart])
       (Score [mk Ten Club, mk Seven Club]) (Blackjack [mk Ten Club, mk Seven Club])
       9007199254740993 3 (- 1)
     = 13510798882111489"
    using trunc_large by (simp add: outcome_spec_def score_defs card_defs)
  ultimately show ?thesis by (simp add: seated_def one_and_half_def)
qed

section \<open>What the moves change\<close>

lemma MoveHit_eq:
  "currentHand g = Inr h \<Longrightarrow> deck g = c # rest \<Longrightarrow>
     MoveHit g = Inr (if 21 < Score (h @ [c]) then Some errBust else None,
                      set_currentHand (g\<lparr>deck := rest\<rparr>) (h @ [c]))"
  by (simp add: MoveHit_def draw_def Let_def)

lemma currentHand_set:
  "currentHand g = Inr h \<Longrightarrow> currentHand (set_currentHand (g\<lparr>deck := rest\<rparr>) cs) = Inr cs"
  by (cases "state g") (auto simp: currentHand_def set_currentHand_def split: if_splits)

lemma set_currentHand_fields:
  "state (set_currentHand g cs) = state g" "handIdx (set_currentHand g cs) = handIdx g"
  "length (player (set_currentHand g cs)) = length (player g)"
  "deck (set_currentHand g cs) = deck g" "playerBet (set_currentHand g cs) = playerBet g"
  "balance (set_currentHand g cs) = balance g"
  by (cases "state g"; simp add: set_currentHand_def)+

lemma set_currentHand_bets:
  "map bet (player (set_currentHand g cs)) = map bet (player g)"
proof (cases "handIdx g < length (player g)")
  case True
  then have "(map bet (player g))[handIdx g := bet (player g ! handIdx g)] = map bet (player g)"
    by (metis list_update_id nth_map)
  then show ?thesis by (cases "state g"; simp add: set_currentHand_def map_update)
next
  case False
  then show ?thesis by (cases "state g"; simp add: set_currentHand_def list_update_beyond)
qed

lemma MoveHit_fields:
  assumes "MoveHit g = Inr (e, g')"
  shows "state g' = state g" "handIdx g' = handIdx g" "length (player g') = length (player g)"
proof -
  from assms obtain h c rest where "g' = set_currentHand (g\<lparr>deck := rest\<rparr>) (h @ [c])"
    by (auto simp: MoveHit_def draw_def Let_def split: sum.splits list.splits if_splits)
  then show "state g' = state g" "handIdx g' = handIdx g" "length (player g') = length (player g)"
    by (simp_all add: set_currentHand_fields)
qed

lemma MoveStand_fields:
  assumes "MoveStand g = Inr (e, g')"
  shows "player g' = player g" "handIdx g \<le> handIdx g'"
    "state_rank (state g) \<le> state_rank (state g')"
    "state g' = statePlayerTurn \<Longrightarrow> handIdx g' < length (player g')"
  using assms by (cases "state g"; auto simp: MoveStand_def Let_def split: if_splits)+


lemma MoveSplit_cases:
  assumes "MoveSplit g = Inr (e, g')"
  shows "g' = g \<or> (\<exists>hs. g' = g\<lparr>player := hs\<rparr> \<and> length hs = Suc (length (player g)))"
proof -
  from assms obtain cs where cs: "currentHand g = Inr cs"
    by (cases "currentHand g") (simp_all add: MoveSplit_def)
  show ?thesis
  proof (cases "length cs \<noteq> 2 \<or> Rank (cs ! 0) \<noteq> Rank (cs ! 1)")
    case True
    with assms cs have "g' = g" by (auto simp: MoveSplit_def split: if_splits)
    then show ?thesis by simp
  next
    case False
    with assms cs have "handIdx g < length (player g)"
      by (auto simp: MoveSplit_def split: if_splits)
    define hs where "hs = (player g @ [\<lparr>cards = [cs ! 1], bet = bet (player g ! handIdx g)\<rparr>])
          [handIdx g := ((player g @ [\<lparr>cards = [cs ! 1], bet = bet (player g ! handIdx g)\<rparr>]) !
              handIdx g)\<lparr>cards := take 1 cs\<rparr>]"
    have len: "length hs = Suc (length (player g))" by (simp add: hs_def)
    from False assms cs \<open>handIdx g < length (player g)\<close> have "g' = g\<lparr>player := hs\<rparr>"
      by (simp add: MoveSplit_def Let_def hs_def)
    with len show ?thesis by blast
  qed
qed

lemma MoveSplit_fields:
  assumes "MoveSplit g = Inr (e, g')"
  shows "state g' = state g" "handIdx g' = handIdx g" "length (player g) \<le> length (player g')"
  using MoveSplit_cases [OF assms] by auto


lemma MoveDouble_cases:
  assumes "MoveDouble g = Inr (e, g')"
  shows "g' = g \<or> (\<exists>e1 g1. MoveHit (g\<lparr>playerBet := playerBet g * 2\<rparr>) = Inr (e1, g1)
            \<and> MoveStand g1 = Inr (e, g'))"
proof -
  from assms obtain h where h: "currentHand g = Inr h"
    by (cases "currentHand g") (simp_all add: MoveDouble_def)
  show ?thesis
  proof (cases "length h = 2")
    case False
    with assms h show ?thesis by (simp add: MoveDouble_def)
  next
    case True
    with assms h obtain e1 g1 where "MoveHit (g\<lparr>playerBet := playerBet g * 2\<rparr>) = Inr (e1, g1)"
      by (cases "MoveHit (g\<lparr>playerBet := playerBet g * 2\<rparr>)") (auto simp: MoveDouble_def)
    moreover from this True assms h have "MoveStand g1 = Inr (e, g')"
      by (simp add: MoveDouble_def)
    ultimately show ?thesis by blast
  qed
qed

lemma MoveDouble_fields:
  assumes "MoveDouble g = Inr (e, g')"
  shows "handIdx g \<le> handIdx g' \<and> state_rank (state g) \<le> state_rank (state g')
    \<and> length (player g) \<le> length (player g')
    \<and> (state g' = statePlayerTurn \<longrightarrow> state g = statePlayerTurn \<longrightarrow>
          handIdx g < length (player g) \<longrightarrow> handIdx g' < length (player g'))"
  using MoveDouble_cases [OF assms]
proof
  assume "g' = g"
  then show ?thesis by simp
next
  assume "\<exists>e1 g1. MoveHit (g\<lparr>playerBet := playerBet g * 2\<rparr>) = Inr (e1, g1)
            \<and> MoveStand g1 = Inr (e, g')"
  then obtain e1 g1 where hit: "MoveHit (g\<lparr>playerBet := playerBet g * 2\<rparr>) = Inr (e1, g1)"
    and stand: "MoveStand g1 = Inr (e, g')" by blast
  from MoveHit_fields [OF hit] MoveStand_fields [OF stand] show ?thesis by simp
qed


section \<open>The states of a round\<close>

lemma reach_mono:
  "round_reach g g' \<Longrightarrow>
     handIdx g \<le> handIdx g' \<and> state_rank (state g) \<le> state_rank (state g')"
proof (induction rule: round_reach.induct)
  case reach_start
  show ?case by simp
next
  case (reach_hit g1 e g2)
  with MoveHit_fields [OF reach_hit(2)] show ?case by simp
next
  case (reach_stand g1 e g2)
  with MoveStand_fields(2,3) [OF reach_stand(2)] show ?case by linarith
next
  case (reach_double g1 e g2)
  with MoveDouble_fields [OF reach_double(2)] show ?case by linarith
next
  case (reach_split g1 e g2)
  with MoveSplit_fields [OF reach_split(2)] show ?case by simp
qed

lemma reach_valid:
  "round_reach g g' \<Longrightarrow> (state g = statePlayerTurn \<longrightarrow> handIdx g < length (player g)) \<Longrightarrow>
     state g' = statePlayerTurn \<longrightarrow> handIdx g' < length (player g')"
proof (induction rule: round_reach.induct)
  case reach_start
  then show ?case by simp
next
  case (reach_hit g1 e g2)
  with MoveHit_fields [OF reach_hit(2)] show ?case by simp
next
  case (reach_stand g1 e g2)
  with MoveStand_fields(4) [OF reach_stand(2)] show ?case by simp
next
  case (reach_double g1 e g2)
  show ?case
  proof
    assume s: "state g2 = statePlayerTurn"
    with MoveDouble_fields [OF reach_double(2)] have "state g1 = statePlayerTurn"
      by (cases "state g1") simp_all
    with reach_double s MoveDouble_fields [OF reach_double(2)]
    show "handIdx g2 < length (player g2)" by simp
  qed
next
  case (reach_split g1 e g2)
  show ?case
  proof
    assume s: "state g2 = statePlayerTurn"
    with MoveSplit_fields [OF reach_split(2)] reach_split(3,4)
    show "handIdx g2 < length (player g2)" by simp
  qed
qed

lemma reach_trans: "round_reach g1 g2 \<Longrightarrow> round_reach g0 g1 \<Longrightarrow> round_reach g0 g2"
proof (induction rule: round_reach.induct)
  case reach_start
  then show ?case .
next
  case (reach_hit g e g')
  then show ?case by (blast intro: round_reach.reach_hit)
next
  case (reach_stand g e g')
  then show ?case by (blast intro: round_reach.reach_stand)
next
  case (reach_double g e g')
  then show ?case by (blast intro: round_reach.reach_double)
next
  case (reach_split g e g')
  then show ?case by (blast intro: round_reach.reach_split)
qed


lemma deal_eq:
  "deck g = p1 # d1 # p2 # d2 # rest \<Longrightarrow>
     deal g = Inr (g\<lparr>handIdx := 0, dealer := [d1, d2], deck := rest,
                     player := [\<lparr>cards = [p1, p2], bet = playerBet g\<rparr>],
                     state := statePlayerTurn\<rparr>)"
  by (simp add: deal_def draw_def numeral_2_eq_2)

lemma deal_unfold:
  "deal g =
     (case deck g of
        p1 # d1 # p2 # d2 # rest \<Rightarrow>
          Inr (g\<lparr>handIdx := 0, dealer := [d1, d2], deck := rest,
                 player := [\<lparr>cards = [p1, p2], bet = playerBet g\<rparr>],
                 state := statePlayerTurn\<rparr>)
      | _ \<Rightarrow> Inl PanicIndex)"
  by (simp add: deal_def draw_def numeral_2_eq_2 split: list.splits)

lemma deal_Inr:
  assumes "deal g = Inr g0"
  shows "state g0 = statePlayerTurn \<and> handIdx g0 = 0 \<and> length (player g0) = 1"
proof -
  from assms obtain ph g' where "deal_loop 2 [] (g\<lparr>handIdx := 0, dealer := []\<rparr>) = Inr (ph, g')"
    and g0: "g0 = g'\<lparr>player := [\<lparr>cards = ph, bet = playerBet g'\<rparr>], state := statePlayerTurn\<rparr>"
    by (auto simp: deal_def split: sum.splits)
  then have "handIdx g' = 0"
    by (auto simp: numeral_2_eq_2 draw_def split: list.splits)
  with g0 show ?thesis by simp
qed

text \<open>
  C8 (as amended). From the deal to the settlement the state only moves forward and the
  active index is valid in the player's turn: \<open>deal\<close> leaves \<open>statePlayerTurn\<close>, and for
  every state \<open>g\<close> that moves of the package reach from the deal and every state \<open>g'\<close>
  they reach from \<open>g\<close>, the state of \<open>g'\<close> is not before that of \<open>g\<close>, and in both, if
  the state is \<open>statePlayerTurn\<close> then \<open>handIdx\<close> is below the number of hands.
  (Nothing is said of the game before the deal and after \<open>endRound\<close>.)
\<close>

theorem round_invariant:
  "deal gi = Inr g0 \<Longrightarrow> round_reach g0 g \<Longrightarrow> round_reach g g' \<Longrightarrow>
     state g0 = statePlayerTurn
     \<and> state_rank (state g) \<le> state_rank (state g')
     \<and> (state g = statePlayerTurn \<longrightarrow> handIdx g < length (player g))
     \<and> (state g' = statePlayerTurn \<longrightarrow> handIdx g' < length (player g'))"
proof -
  assume d: "deal gi = Inr g0" and r1: "round_reach g0 g" and r2: "round_reach g g'"
  from deal_Inr [OF d] have g0: "state g0 = statePlayerTurn \<longrightarrow> handIdx g0 < length (player g0)"
    and s0: "state g0 = statePlayerTurn" by simp_all
  from reach_valid [OF r1 g0] have v: "state g = statePlayerTurn \<longrightarrow> handIdx g < length (player g)" .
  from reach_valid [OF r2 v] reach_mono [OF r2] v s0 show ?thesis by simp
qed


section \<open>Whole rounds\<close>

lemmas round_defs = playRound_def game_bet_def basicAI_AI_def basicAI_Bet_def go_div_def
  counting_def table_def seated_def endRound_def basicAI_Results_def basicAI_count_def
  basicAI_Play_def playerStep_def currentHand_def set_currentHand_def draw_def
  MoveHit_def MoveStand_def MoveDouble_def MoveSplit_def dealerAI_Play_def

text \<open>
  The claim as first stated covers the state that \<open>endRound\<close> leaves. After a round
  that the dealer's blackjack ends, the state is still \<open>statePlayerTurn\<close> and the list of
  hands is empty, so the index 0 is not valid.
\<close>

theorem round_invariant_counterexample:
  "playRound 0 basicAI_AI True (counting 4)
      (table [mk Five Spade, mk Ace Club, mk Six Heart, mk King Club])
     = Some (Inr (\<lparr>score = 0, seen = 4, decks = 4\<rparr>,
                  (table [])\<lparr>playerBet := 100, balance := - 100\<rparr>))
   \<and> state ((table [])\<lparr>playerBet := 100, balance := - 100\<rparr>) = statePlayerTurn
   \<and> \<not> handIdx ((table [])\<lparr>playerBet := 100, balance := - 100\<rparr>)
         < length (player ((table [])\<lparr>playerBet := 100, balance := - 100\<rparr>))"
  by (simp add: round_defs deal_unfold score_defs card_defs)

text \<open>
  C5. When the bet is accepted and the dealer's two cards are a blackjack, the round is
  the bet, the deal and \<open>endRound\<close> on the dealt hands, whatever the fuel: no pass of
  the player loop or the dealer loop is made, no card beyond the four is drawn, and the
  result does not depend on the strategy's \<open>Play\<close>. With a bet of 100 and a player hand
  that is not a blackjack the balance goes down by 100.
\<close>

theorem dealer_blackjack_round:
  assumes "Bet ai shuffled a = Inr (b, a1)" and "100 \<le> sint b"
    and "deck g = p1 # d1 # p2 # d2 # rest" and "Blackjack [d1, d2]"
  shows "playRound fuel ai shuffled a g =
      Some (Inr (endRound ai a1
        (g\<lparr>playerBet := b, handIdx := 0, dealer := [d1, d2], deck := rest,
           player := [\<lparr>cards = [p1, p2], bet = b\<rparr>], state := statePlayerTurn\<rparr>)))
    \<and> playRound fuel (ai\<lparr>Play := q\<rparr>) shuffled a g = playRound fuel ai shuffled a g
    \<and> (b = 100 \<and> \<not> Blackjack [p1, p2] \<longrightarrow>
         playRound fuel ai shuffled a g =
           Some (Inr (Results ai [[p1, p2]] [d1, d2] a1,
             g\<lparr>playerBet := 100, handIdx := 0, dealer := [], deck := rest,
               player := [], state := statePlayerTurn, balance := balance g - 100\<rparr>)))"
proof -
  let ?g1 = "g\<lparr>playerBet := b\<rparr>"
  have bet1: "game_bet ai' shuffled a g = Inr (a1, ?g1)" if "Bet ai' = Bet ai" for ai' :: "'a AI"
    using assms(1,2) that by (simp add: game_bet_def)
  have d: "deal ?g1 = Inr (g\<lparr>playerBet := b, handIdx := 0, dealer := [d1, d2], deck := rest,
           player := [\<lparr>cards = [p1, p2], bet = b\<rparr>], state := statePlayerTurn\<rparr>)"
    using deal_eq [of ?g1 p1 d1 p2 d2 rest] assms(3) by simp
  have r: "playRound fuel ai' shuffled a g =
      Some (Inr (endRound ai' a1
        (g\<lparr>playerBet := b, handIdx := 0, dealer := [d1, d2], deck := rest,
           player := [\<lparr>cards = [p1, p2], bet = b\<rparr>], state := statePlayerTurn\<rparr>)))"
    if "Bet ai' = Bet ai" for ai' :: "'a AI"
    using bet1 [OF that] d assms(4) by (simp add: playRound_def)
  have e: "endRound (ai\<lparr>Play := q\<rparr>) = endRound ai"
    by (rule ext)+ (simp add: endRound_def)
  have 1: "playRound fuel ai shuffled a g = Some (Inr (endRound ai a1
        (g\<lparr>playerBet := b, handIdx := 0, dealer := [d1, d2], deck := rest,
           player := [\<lparr>cards = [p1, p2], bet = b\<rparr>], state := statePlayerTurn\<rparr>)))"
    using r [of ai] by simp
  have 2: "playRound fuel (ai\<lparr>Play := q\<rparr>) shuffled a g = playRound fuel ai shuffled a g"
    using r [of "ai\<lparr>Play := q\<rparr>"] 1 e by simp
  have 3: "b = 100 \<and> \<not> Blackjack [p1, p2] \<longrightarrow>
         playRound fuel ai shuffled a g =
           Some (Inr (Results ai [[p1, p2]] [d1, d2] a1,
             g\<lparr>playerBet := 100, handIdx := 0, dealer := [], deck := rest,
               player := [], state := statePlayerTurn, balance := balance g - 100\<rparr>))"
    using 1 assms(4) by (simp add: endRound_def Let_def)
  from 1 2 3 show ?thesis by blast
qed

theorem dealer_blackjack_round_witness:
  "playRound 0 basicAI_AI True (counting 4)
      (table [mk Five Spade, mk Ace Club, mk Six Heart, mk King Club, mk Two Heart])
     = Some (Inr (\<lparr>score = 0, seen = 4, decks = 4\<rparr>,
                  (table [mk Two Heart])\<lparr>playerBet := 100, balance := - 100\<rparr>))"
proof -
  have b: "Bet basicAI_AI True (counting 4) = Inr (100, counting 4)"
    by (simp add: basicAI_AI_def basicAI_Bet_def go_div_def counting_def)
  have k: "deck (table [mk Five Spade, mk Ace Club, mk Six Heart, mk King Club, mk Two Heart])
      = mk Five Spade # mk Ace Club # mk Six Heart # mk King Club # [mk Two Heart]"
    by (simp add: table_def)
  have hundred: "100 \<le> sint (100 :: goint)" by simp
  have bj: "Blackjack [mk Ace Club, mk King Club]" by (simp add: score_defs card_defs)
  have nbj: "\<not> Blackjack [mk Five Spade, mk Six Heart]" by (simp add: score_defs card_defs)
  have res: "Results basicAI_AI [[mk Five Spade, mk Six Heart]] [mk Ace Club, mk King Club] (counting 4)
      = \<lparr>score = 0, seen = 4, decks = 4\<rparr>"
    by (simp add: basicAI_AI_def basicAI_Results_def basicAI_count_def counting_def score_defs card_defs)
  have "(100::goint) = 100 \<and> \<not> Blackjack [mk Five Spade, mk Six Heart] \<longrightarrow>
      playRound 0 basicAI_AI True (counting 4)
        (table [mk Five Spade, mk Ace Club, mk Six Heart, mk King Club, mk Two Heart]) =
      Some (Inr (Results basicAI_AI [[mk Five Spade, mk Six Heart]] [mk Ace Club, mk King Club]
          (counting 4),
        (table [mk Five Spade, mk Ace Club, mk Six Heart, mk King Club, mk Two Heart])
          \<lparr>playerBet := 100, handIdx := 0, dealer := [], deck := [mk Two Heart], player := [],
            state := statePlayerTurn,
            balance := balance (table [mk Five Spade, mk Ace Club, mk Six Heart, mk King Club,
              mk Two Heart]) - 100\<rparr>))"
    using dealer_blackjack_round [OF b hundred k bj, where fuel = 0] by blast
  with nbj res show ?thesis by (simp add: table_def)
qed


text \<open>
  C1 (the code at a hand of two cards). \<open>MoveDouble\<close> on the hand Five, Six with bet 100
  draws the Ten and stands, and doubles \<open>playerBet\<close>; the bet of the hand stays 100. In
  the round in which the counting strategy doubles this hand and wins against the
  dealer's 17, the balance rises by 100.
\<close>

theorem MoveDouble_leaves_bet:
  "MoveDouble (seated [\<lparr>cards = [mk Five Spade, mk Six Heart], bet = 100\<rparr>] 0
        [mk Ten Diamond, mk Two Club])
     = Inr (None, (seated [\<lparr>cards = [mk Five Spade, mk Six Heart, mk Ten Diamond], bet = 100\<rparr>] 1
                     [mk Two Club])\<lparr>playerBet := 200, state := stateDealerTurn\<rparr>)
   \<and> playRound (Suc 0) basicAI_AI True (counting 4)
        (table [mk Five Spade, mk Ten Club, mk Six Heart, mk Seven Club, mk Ten Diamond, mk Two Club])
     = Some (Inr (\<lparr>score = 0, seen = 5, decks = 4\<rparr>,
          (table [mk Two Club])\<lparr>playerBet := 200, handIdx := 1, state := stateHandOver,
             balance := 100\<rparr>))"
  by (simp add: round_defs deal_unfold dealerTurn.simps score_defs card_defs)

lemma MoveDouble_bets:
  assumes "MoveDouble g = Inr (e, g')"
  shows "map bet (player g') = map bet (player g)"
  using MoveDouble_cases [OF assms]
proof
  assume "g' = g"
  then show ?thesis by simp
next
  assume "\<exists>e1 g1. MoveHit (g\<lparr>playerBet := playerBet g * 2\<rparr>) = Inr (e1, g1)
            \<and> MoveStand g1 = Inr (e, g')"
  then obtain e1 g1 where hit: "MoveHit (g\<lparr>playerBet := playerBet g * 2\<rparr>) = Inr (e1, g1)"
    and stand: "MoveStand g1 = Inr (e, g')" by blast
  from hit obtain h c rest where
    "g1 = set_currentHand (g\<lparr>playerBet := playerBet g * 2, deck := rest\<rparr>) (h @ [c])"
    by (auto simp: MoveHit_def draw_def Let_def split: sum.splits list.splits if_splits)
  then have "map bet (player g1) = map bet (player g)"
    by (simp add: set_currentHand_bets)
  with MoveStand_fields(1) [OF stand] show ?thesis by simp
qed

text \<open>
  C3 (as amended). In the player's turn, with a valid active index: if the active hand
  is two cards of equal rank, \<open>MoveSplit\<close> succeeds, cuts the active hand down to its
  first card and appends a hand of the second card, with the bet of the active hand, at
  the end of the list of hands; for any other active hand it returns an error and the
  game unchanged.
\<close>

theorem MoveSplit_spec:
  "state g = statePlayerTurn \<Longrightarrow> handIdx g < length (player g) \<Longrightarrow>
     (cards (player g ! handIdx g) = [c1, c2] \<and> Rank c1 = Rank c2 \<longrightarrow>
        MoveSplit g = Inr (None,
          g\<lparr>player := (player g)[handIdx g := (player g ! handIdx g)\<lparr>cards := [c1]\<rparr>]
                @ [\<lparr>cards = [c2], bet = bet (player g ! handIdx g)\<rparr>]\<rparr>))
     \<and> (\<not> (length (cards (player g ! handIdx g)) = 2
             \<and> Rank (cards (player g ! handIdx g) ! 0) = Rank (cards (player g ! handIdx g) ! 1)) \<longrightarrow>
        (\<exists>e. MoveSplit g = Inr (Some e, g)))"
proof -
  assume st: "state g = statePlayerTurn" and ix: "handIdx g < length (player g)"
  then have ch: "currentHand g = Inr (cards (player g ! handIdx g))"
    by (simp add: currentHand_def)
  have a: "MoveSplit g = Inr (None,
          g\<lparr>player := (player g)[handIdx g := (player g ! handIdx g)\<lparr>cards := [c1]\<rparr>]
                @ [\<lparr>cards = [c2], bet = bet (player g ! handIdx g)\<rparr>]\<rparr>)"
    if h: "cards (player g ! handIdx g) = [c1, c2]" and r: "Rank c1 = Rank c2"
    using ch h r ix by (simp add: MoveSplit_def Let_def nth_append list_update_append)
  have b: "\<exists>e. MoveSplit g = Inr (Some e, g)"
    if "\<not> (length (cards (player g ! handIdx g)) = 2
             \<and> Rank (cards (player g ! handIdx g) ! 0) = Rank (cards (player g ! handIdx g) ! 1))"
    using that ch by (auto simp: MoveSplit_def)
  from a b show ?thesis by blast
qed

theorem MoveSplit_spec_witness:
  "MoveSplit (seated [\<lparr>cards = [mk Eight Spade, mk Eight Heart], bet = 100\<rparr>] 0 [])
     = Inr (None, seated [\<lparr>cards = [mk Eight Spade], bet = 100\<rparr>,
                          \<lparr>cards = [mk Eight Heart], bet = 100\<rparr>] 0 [])
   \<and> MoveSplit (seated [\<lparr>cards = [mk Eight Spade, mk Nine Heart], bet = 100\<rparr>] 0 [])
     = Inr (Some errSplitRank, seated [\<lparr>cards = [mk Eight Spade, mk Nine Heart], bet = 100\<rparr>] 0 [])"
proof -
  have "MoveSplit (seated [\<lparr>cards = [mk Eight Spade, mk Eight Heart], bet = 100\<rparr>] 0 [])
     = Inr (None, seated [\<lparr>cards = [mk Eight Spade], bet = 100\<rparr>,
                          \<lparr>cards = [mk Eight Heart], bet = 100\<rparr>] 0 [])"
    using MoveSplit_spec [of "seated [\<lparr>cards = [mk Eight Spade, mk Eight Heart], bet = 100\<rparr>] 0 []"
        "mk Eight Spade" "mk Eight Heart"]
    by (simp add: seated_def card_defs)
  moreover have "\<exists>e. MoveSplit (seated [\<lparr>cards = [mk Eight Spade, mk Nine Heart], bet = 100\<rparr>] 0 [])
     = Inr (Some e, seated [\<lparr>cards = [mk Eight Spade, mk Nine Heart], bet = 100\<rparr>] 0 [])"
    using MoveSplit_spec [of "seated [\<lparr>cards = [mk Eight Spade, mk Nine Heart], bet = 100\<rparr>] 0 []"]
    by (simp add: seated_def card_defs)
  ultimately show ?thesis
    by (simp add: MoveSplit_def currentHand_def seated_def card_defs)
qed

text \<open>
  The claim as first stated puts the new hand right after the active one. With a second
  hand already behind the active one, the new hand comes after that hand.
\<close>

theorem MoveSplit_counterexample:
  "MoveSplit (seated [\<lparr>cards = [mk Eight Spade, mk Eight Heart], bet = 100\<rparr>,
                      \<lparr>cards = [mk Eight Diamond], bet = 100\<rparr>] 0 [])
     = Inr (None, seated [\<lparr>cards = [mk Eight Spade], bet = 100\<rparr>,
                          \<lparr>cards = [mk Eight Diamond], bet = 100\<rparr>,
                          \<lparr>cards = [mk Eight Heart], bet = 100\<rparr>] 0 [])
   \<and> player (seated [\<lparr>cards = [mk Eight Spade], bet = 100\<rparr>,
                          \<lparr>cards = [mk Eight Diamond], bet = 100\<rparr>,
                          \<lparr>cards = [mk Eight Heart], bet = 100\<rparr>] 0 []) ! (0 + 1)
       \<noteq> \<lparr>cards = [mk Eight Heart], bet = 100\<rparr>"
  by (simp add: MoveSplit_def currentHand_def seated_def card_defs)


text \<open>
  C4. When there is an active hand and the shoe is not empty, \<open>MoveHit\<close> moves the first
  card of the shoe to the end of the active hand and changes nothing else; it returns
  \<open>errBust\<close> exactly when the new score exceeds 21. When the strategy's move in the
  player loop was this hit and it busted, the pass of the loop ends with \<open>MoveStand\<close>:
  the loop goes on from the state after the stand, whose active index is one more and
  whose state is \<open>statePlayerTurn\<close> if a hand is left and \<open>stateDealerTurn\<close> otherwise;
  in no later state of the round is the busted hand the active one again.
\<close>

theorem MoveHit_spec:
  assumes "currentHand g = Inr h" and "deck g = c # rest"
  shows "MoveHit g = Inr (if 21 < Score (h @ [c]) then Some errBust else None,
                          set_currentHand (g\<lparr>deck := rest\<rparr>) (h @ [c]))
    \<and> currentHand (set_currentHand (g\<lparr>deck := rest\<rparr>) (h @ [c])) = Inr (h @ [c])
    \<and> deck (set_currentHand (g\<lparr>deck := rest\<rparr>) (h @ [c])) = rest
    \<and> (state g = statePlayerTurn \<and> dealer g = up # ds \<and> Play ai h up a = (MoveHit, a')
          \<and> 21 < Score (h @ [c]) \<longrightarrow>
        (\<exists>gs. MoveStand (set_currentHand (g\<lparr>deck := rest\<rparr>) (h @ [c])) = Inr (None, gs)
           \<and> playerStep ai a g = Inr (a', gs)
           \<and> (\<forall>n. playerTurn (Suc n) ai a g = playerTurn n ai a' gs)
           \<and> handIdx gs = handIdx g + 1
           \<and> state gs = (if handIdx g + 1 < length (player g) then statePlayerTurn
                          else stateDealerTurn)
           \<and> (\<forall>g2. round_reach gs g2 \<longrightarrow> handIdx g < handIdx g2)))"
proof -
  let ?g' = "set_currentHand (g\<lparr>deck := rest\<rparr>) (h @ [c])"
  note hit = MoveHit_eq [OF assms]
  have 1: "currentHand ?g' = Inr (h @ [c])" by (rule currentHand_set [OF assms(1)])
  have 2: "deck ?g' = rest" by (simp add: set_currentHand_fields)
  have 3: "\<exists>gs. MoveStand ?g' = Inr (None, gs)
           \<and> playerStep ai a g = Inr (a', gs)
           \<and> (\<forall>n. playerTurn (Suc n) ai a g = playerTurn n ai a' gs)
           \<and> handIdx gs = handIdx g + 1
           \<and> state gs = (if handIdx g + 1 < length (player g) then statePlayerTurn
                          else stateDealerTurn)
           \<and> (\<forall>g2. round_reach gs g2 \<longrightarrow> handIdx g < handIdx g2)"
    if st: "state g = statePlayerTurn" and dl: "dealer g = up # ds"
      and pl: "Play ai h up a = (MoveHit, a')" and bust: "21 < Score (h @ [c])"
  proof -
    have f: "state ?g' = statePlayerTurn" "handIdx ?g' = handIdx g"
      "length (player ?g') = length (player g)"
      using st by (simp_all add: set_currentHand_fields)
    have "\<exists>gs. MoveStand ?g' = Inr (None, gs)"
      using f by (cases "length (player g) \<le> Suc (handIdx g)") (simp_all add: MoveStand_def Let_def)
    then obtain gs where gs: "MoveStand ?g' = Inr (None, gs)" ..
    from gs f have i: "handIdx gs = handIdx g + 1"
      and s: "state gs = (if handIdx g + 1 < length (player g) then statePlayerTurn
                          else stateDealerTurn)"
      by (auto simp: MoveStand_def Let_def split: if_splits)
    have step: "playerStep ai a g = Inr (a', gs)"
      using assms(1) dl pl hit bust gs by (simp add: playerStep_def)
    have loop: "playerTurn (Suc n) ai a g = playerTurn n ai a' gs" for n
      using st step by simp
    have later: "handIdx g < handIdx g2" if "round_reach gs g2" for g2
      using reach_mono [OF that] i by simp
    from gs step loop i s later show ?thesis by blast
  qed
  from hit 1 2 3 show ?thesis by blast
qed

theorem MoveHit_spec_witness:
  "MoveHit (seated [\<lparr>cards = [mk Ten Spade, mk Two Heart], bet = 100\<rparr>] 0 [mk Ten Diamond])
     = Inr (Some errBust,
            seated [\<lparr>cards = [mk Ten Spade, mk Two Heart, mk Ten Diamond], bet = 100\<rparr>] 0 [])
   \<and> playerTurn (Suc 0) basicAI_AI (counting 4)
        (seated [\<lparr>cards = [mk Ten Spade, mk Two Heart], bet = 100\<rparr>] 0 [mk Ten Diamond])
     = Some (Inr (counting 4,
         (seated [\<lparr>cards = [mk Ten Spade, mk Two Heart, mk Ten Diamond], bet = 100\<rparr>] 1 [])
            \<lparr>state := stateDealerTurn\<rparr>))"
proof -
  let ?g = "seated [\<lparr>cards = [mk Ten Spade, mk Two Heart], bet = 100\<rparr>] 0 [mk Ten Diamond]"
  let ?h = "[mk Ten Spade, mk Two Heart]"
  have ch: "currentHand ?g = Inr ?h" by (simp add: currentHand_def seated_def)
  have dk: "deck ?g = mk Ten Diamond # []" by (simp add: seated_def)
  have st: "state ?g = statePlayerTurn" and dl: "dealer ?g = mk Ten Club # [mk Seven Club]"
    by (simp_all add: seated_def)
  have pl: "Play basicAI_AI ?h (mk Ten Club) (counting 4) = (MoveHit, counting 4)"
    by (simp add: basicAI_AI_def basicAI_Play_def score_defs card_defs)
  have bust: "21 < Score (?h @ [mk Ten Diamond])" by (simp add: score_defs card_defs)
  note th = MoveHit_spec [OF ch dk, of "mk Ten Club" "[mk Seven Club]" basicAI_AI "counting 4" "counting 4"]
  from th bust have a: "MoveHit ?g = Inr (Some errBust,
      set_currentHand (?g\<lparr>deck := []\<rparr>) (?h @ [mk Ten Diamond]))"
    by simp
  from th st dl pl bust obtain gs where
    gs: "MoveStand (set_currentHand (?g\<lparr>deck := []\<rparr>) (?h @ [mk Ten Diamond])) = Inr (None, gs)"
    and lp: "\<forall>n. playerTurn (Suc n) basicAI_AI (counting 4) ?g = playerTurn n basicAI_AI (counting 4) gs"
    by blast
  from gs have gs': "gs = (seated [\<lparr>cards = [mk Ten Spade, mk Two Heart, mk Ten Diamond], bet = 100\<rparr>] 1 [])
            \<lparr>state := stateDealerTurn\<rparr>"
    by (simp add: MoveStand_def set_currentHand_def seated_def Let_def)
  from lp have "playerTurn (Suc 0) basicAI_AI (counting 4) ?g = playerTurn 0 basicAI_AI (counting 4) gs"
    by blast
  with gs' a show ?thesis by (simp add: set_currentHand_def seated_def)
qed


theorem round_invariant_witness:
  "deal (table [mk Five Spade, mk Ten Club, mk Six Heart, mk Seven Club])
     = Inr ((table [])\<lparr>dealer := [mk Ten Club, mk Seven Club],
              player := [\<lparr>cards = [mk Five Spade, mk Six Heart], bet = 0\<rparr>]\<rparr>)
   \<and> MoveStand ((table [])\<lparr>dealer := [mk Ten Club, mk Seven Club],
              player := [\<lparr>cards = [mk Five Spade, mk Six Heart], bet = 0\<rparr>]\<rparr>)
     = Inr (None, (table [])\<lparr>dealer := [mk Ten Club, mk Seven Club],
              player := [\<lparr>cards = [mk Five Spade, mk Six Heart], bet = 0\<rparr>],
              handIdx := 1, state := stateDealerTurn\<rparr>)
   \<and> state_rank (state ((table [])\<lparr>dealer := [mk Ten Club, mk Seven Club],
              player := [\<lparr>cards = [mk Five Spade, mk Six Heart], bet = 0\<rparr>]\<rparr>))
       \<le> state_rank (state ((table [])\<lparr>dealer := [mk Ten Club, mk Seven Club],
              player := [\<lparr>cards = [mk Five Spade, mk Six Heart], bet = 0\<rparr>],
              handIdx := 1, state := stateDealerTurn\<rparr>))
   \<and> handIdx ((table [])\<lparr>dealer := [mk Ten Club, mk Seven Club],
              player := [\<lparr>cards = [mk Five Spade, mk Six Heart], bet = 0\<rparr>]\<rparr>)
       < length (player ((table [])\<lparr>dealer := [mk Ten Club, mk Seven Club],
              player := [\<lparr>cards = [mk Five Spade, mk Six Heart], bet = 0\<rparr>]\<rparr>))"
proof -
  let ?gi = "table [mk Five Spade, mk Ten Club, mk Six Heart, mk Seven Club]"
  let ?g0 = "(table [])\<lparr>dealer := [mk Ten Club, mk Seven Club],
              player := [\<lparr>cards = [mk Five Spade, mk Six Heart], bet = 0\<rparr>]\<rparr>"
  let ?g1 = "(table [])\<lparr>dealer := [mk Ten Club, mk Seven Club],
              player := [\<lparr>cards = [mk Five Spade, mk Six Heart], bet = 0\<rparr>],
              handIdx := 1, state := stateDealerTurn\<rparr>"
  have d: "deal ?gi = Inr ?g0"
    by (simp add: deal_unfold table_def)
  have m: "MoveStand ?g0 = Inr (None, ?g1)"
    by (simp add: MoveStand_def table_def)
  have r1: "round_reach ?g0 ?g0" by (rule reach_start)
  have r2: "round_reach ?g0 ?g1" by (rule reach_stand [OF reach_start m])
  from round_invariant [OF d r1 r2] d m show ?thesis by (simp add: table_def)
qed

text \<open>
  The loops stay within \<open>round_reach\<close>: every pass of the player loop of a strategy
  that answers with the package's four moves, and every run of the dealer loop.
\<close>

lemma playerStep_reach:
  assumes "playerStep ai a g = Inr (a', g')"
    and std: "\<And>h up a. fst (Play ai h up a) \<in> {MoveHit, MoveStand, MoveDouble, MoveSplit}"
  shows "round_reach g g'"
proof -
  from assms(1) obtain h where h: "currentHand g = Inr h"
    by (cases "currentHand g") (simp_all add: playerStep_def)
  from assms(1) h obtain up ds where dl: "dealer g = up # ds"
    by (cases "dealer g") (simp_all add: playerStep_def)
  obtain move a1 where pl: "Play ai h up a = (move, a1)" by (cases "Play ai h up a")
  from assms(1) h dl pl obtain err g1 where mv: "move g = Inr (err, g1)"
    by (cases "move g") (auto simp: playerStep_def)
  from std [of h up a] pl have "move \<in> {MoveHit, MoveStand, MoveDouble, MoveSplit}" by simp
  with mv have r1: "round_reach g g1"
    by (auto intro: reach_hit reach_stand reach_double reach_split reach_start)
  show ?thesis
  proof (cases err)
    case None
    with assms(1) h dl pl mv have "g' = g1" by (simp add: playerStep_def)
    with r1 show ?thesis by simp
  next
    case (Some e)
    with assms(1) h dl pl mv have eb: "e = errBust"
      by (auto simp: playerStep_def split: if_splits)
    with Some assms(1) h dl pl mv obtain e2 where "MoveStand g1 = Inr (e2, g')"
      by (cases "MoveStand g1") (auto simp: playerStep_def)
    with r1 show ?thesis by (rule reach_stand)
  qed
qed

lemma playerTurn_reach:
  assumes std: "\<And>h up a. fst (Play ai h up a) \<in> {MoveHit, MoveStand, MoveDouble, MoveSplit}"
  shows "playerTurn n ai a g = Some (Inr (a', g')) \<Longrightarrow> round_reach g g'"
proof (induction n arbitrary: a g)
  case 0
  then show ?case by (auto split: if_splits intro: reach_start)
next
  case (Suc n)
  show ?case
  proof (cases "state g = statePlayerTurn")
    case False
    with Suc.prems show ?thesis by (auto intro: reach_start)
  next
    case True
    with Suc.prems obtain a1 g1 where st: "playerStep ai a g = Inr (a1, g1)"
      and rest: "playerTurn n ai a1 g1 = Some (Inr (a', g'))"
      by (cases "playerStep ai a g") auto
    from playerStep_reach [OF st std] Suc.IH [OF rest] show ?thesis
      by (rule reach_trans [rotated])
  qed
qed

lemma dealerTurn_reach: "dealerTurn g = Inr g' \<Longrightarrow> round_reach g g'"
proof (induction g rule: dealerTurn.induct)
  case (1 g)
  show ?case
  proof (cases "state g = stateDealerTurn")
    case False
    with "1.prems" show ?thesis by (auto simp: dealerTurn.simps [of g] intro: reach_start)
  next
    case True
    with "1.prems" obtain up ds where dl: "dealer g = up # ds"
      by (cases "dealer g") (auto simp: dealerTurn.simps [of g])
    with True "1.prems" obtain e g1 where mv: "dealerAI_Play (dealer g) up g = Inr (e, g1)"
      and rest: "dealerTurn g1 = Inr g'"
      by (cases "dealerAI_Play (dealer g) up g") (auto simp: dealerTurn.simps [of g])
    from mv have "MoveHit g = Inr (e, g1) \<or> MoveStand g = Inr (e, g1)"
      by (auto simp: dealerAI_Play_def Let_def split: if_splits)
    then have r1: "round_reach g g1"
      by (auto intro: reach_hit reach_stand reach_start)
    from True have "\<not> state g \<noteq> stateDealerTurn" by simp
    from "1.IH" [OF this dl mv refl rest] have "round_reach g1 g'" .
    then show ?thesis using r1 by (rule reach_trans)
  qed
qed
section \<open>The bet of the counting strategy\<close>

lemma sint_goint_of_int:
  "- (2 ^ 63) \<le> k \<Longrightarrow> k < 2 ^ 63 \<Longrightarrow> sint (word_of_int k :: goint) = k"
  by (simp add: sint_sbintrunc' signed_take_bit_int_eq_self)

lemma goint_of_int_eq_0:
  assumes "- (2 ^ 63) \<le> k" and "k < 2 ^ 63"
  shows "(word_of_int k :: goint) = 0 \<longleftrightarrow> k = 0"
proof
  assume "(word_of_int k :: goint) = 0"
  then have "sint (word_of_int k :: goint) = 0" by simp
  with sint_goint_of_int [OF assms] show "k = 0" by simp
qed simp

lemma sint_goint_range: "- (2 ^ 63) \<le> sint (x :: goint) \<and> sint x < 2 ^ 63"
  using sint_ge [of x] sint_lt [of x] by simp

lemma div_52_bounds:
  "0 \<le> (a :: int) \<Longrightarrow> a \<le> 9223372036854775808 \<Longrightarrow>
     0 \<le> a div 52 \<and> a div 52 < 9223372036854775808"
  by presburger

lemma go_div_52_zero:
  assumes "go_div x 52 = Inr d"
  shows "d = 0 \<longleftrightarrow> - 52 < sint x \<and> sint x < 52"
proof -
  let ?t = "sgn (sint x) * (\<bar>sint x\<bar> div 52)"
  from assms have d: "d = word_of_int ?t" by (simp add: go_div_def)
  have k: "0 \<le> \<bar>sint x\<bar>" "\<bar>sint x\<bar> \<le> 9223372036854775808"
    using sint_goint_range [of x] by (simp, simp, linarith)
  have nn: "0 \<le> \<bar>sint x\<bar> div 52" "\<bar>sint x\<bar> div 52 < 9223372036854775808"
    using div_52_bounds [OF k] by simp_all
  have "\<bar>?t\<bar> = \<bar>sgn (sint x)\<bar> * (\<bar>sint x\<bar> div 52)"
    using nn(1) by (simp only: abs_mult abs_of_nonneg)
  also have "\<dots> \<le> 1 * (\<bar>sint x\<bar> div 52)"
    using nn(1) by (intro mult_right_mono) (simp_all add: abs_sgn_eq)
  finally have "\<bar>?t\<bar> < 9223372036854775808" using nn(2) by simp
  then have r: "- (2 ^ 63) \<le> ?t" "?t < 2 ^ 63" by simp_all
  have "?t = 0 \<longleftrightarrow> - 52 < sint x \<and> sint x < 52"
    by (auto simp: sgn_if div_eq_0_iff)
  with goint_of_int_eq_0 [OF r] d show ?thesis by simp
qed

text \<open>
  In the arithmetic of \<open>int\<close>, \<open>Bet\<close> panics exactly when the wrapped difference lies
  strictly between -52 and 52.
\<close>

lemma basicAI_Bet_panic_iff:
  "basicAI_Bet shuffled bi = Inl PanicDivide \<longleftrightarrow>
     - 52 < sint (decks bi * 52 - (if shuffled then 0 else seen bi))
     \<and> sint (decks bi * 52 - (if shuffled then 0 else seen bi)) < 52"
proof -
  let ?x = "decks bi * 52 - (if shuffled then 0 else seen bi)"
  obtain d where d: "go_div ?x 52 = Inr d" by (simp add: go_div_def)
  have "basicAI_Bet shuffled bi = Inl PanicDivide \<longleftrightarrow> d = 0"
    using d by (cases shuffled) (auto simp: basicAI_Bet_def Let_def go_div_def)
  with go_div_52_zero [OF d] show ?thesis by simp
qed

text \<open>
  C9. Whenever the cards not yet seen, \<open>decks * 52 - seen\<close> (after the reset that
  \<open>shuffled\<close> asks for), are at least 0 and fewer than 52, the inner quotient of \<open>Bet\<close>
  is zero and \<open>Bet\<close> panics with a division by zero. Such a state is reached in play
  (one deck, after the first round), so \<open>Bet\<close> is not total.
\<close>

theorem basicAI_Bet_zero_divisor:
  "0 \<le> sint (decks bi) * 52 - (if shuffled then 0 else sint (seen bi)) \<Longrightarrow>
   sint (decks bi) * 52 - (if shuffled then 0 else sint (seen bi)) < 52 \<Longrightarrow>
     basicAI_Bet shuffled bi = Inl PanicDivide"
proof -
  let ?k = "sint (decks bi) * 52 - (if shuffled then 0 else sint (seen bi))"
  assume lo: "0 \<le> ?k" and hi: "?k < 52"
  have "decks bi * 52 - (if shuffled then 0 else seen bi) = word_of_int ?k"
    by simp
  moreover from lo hi have "sint (word_of_int ?k :: goint) = ?k"
    by (intro sint_goint_of_int) simp_all
  ultimately have "sint (decks bi * 52 - (if shuffled then 0 else seen bi)) = ?k"
    by simp
  with lo hi show ?thesis by (simp add: basicAI_Bet_panic_iff)
qed

theorem basicAI_Bet_zero_divisor_witness:
  "playRound (Suc 0) basicAI_AI True (counting 1)
      (table [mk Five Spade, mk Ten Club, mk Six Heart, mk Seven Club, mk Ten Diamond,
              mk Two Club, mk Three Club, mk Four Club, mk Five Club])
     = Some (Inr (\<lparr>score = 0, seen = 5, decks = 1\<rparr>,
          (table [mk Two Club, mk Three Club, mk Four Club, mk Five Club])
             \<lparr>playerBet := 200, handIdx := 1, state := stateHandOver, balance := 100\<rparr>))
   \<and> basicAI_Bet False \<lparr>score = 0, seen = 5, decks = 1\<rparr> = Inl PanicDivide
   \<and> playRound (Suc 0) basicAI_AI False \<lparr>score = 0, seen = 5, decks = 1\<rparr>
        ((table [mk Two Club, mk Three Club, mk Four Club, mk Five Club])
             \<lparr>playerBet := 200, handIdx := 1, state := stateHandOver, balance := 100\<rparr>)
     = Some (Inl PanicDivide)"
proof -
  have p: "basicAI_Bet False \<lparr>score = 0, seen = 5, decks = 1\<rparr> = Inl PanicDivide"
    using basicAI_Bet_zero_divisor [of "\<lparr>score = 0, seen = 5, decks = 1\<rparr>" False] by simp
  have r1: "playRound (Suc 0) basicAI_AI True (counting 1)
      (table [mk Five Spade, mk Ten Club, mk Six Heart, mk Seven Club, mk Ten Diamond,
              mk Two Club, mk Three Club, mk Four Club, mk Five Club])
     = Some (Inr (\<lparr>score = 0, seen = 5, decks = 1\<rparr>,
          (table [mk Two Club, mk Three Club, mk Four Club, mk Five Club])
             \<lparr>playerBet := 200, handIdx := 1, state := stateHandOver, balance := 100\<rparr>))"
    by (simp add: round_defs deal_unfold dealerTurn.simps score_defs card_defs)
  have r2: "playRound (Suc 0) basicAI_AI False \<lparr>score = 0, seen = 5, decks = 1\<rparr>
        ((table [mk Two Club, mk Three Club, mk Four Club, mk Five Club])
             \<lparr>playerBet := 200, handIdx := 1, state := stateHandOver, balance := 100\<rparr>)
     = Some (Inl PanicDivide)"
    using p by (simp add: playRound_def game_bet_def basicAI_AI_def)
  from p r1 r2 show ?thesis by simp
qed

end
